theory Spec2Isabelle
  imports Complex_Main "HOL-Library.Monad_Syntax"
begin

section \<open>Strings and numbers of the script\<close>

text \<open>
  A JavaScript string is a sequence of UTF-16 code units; a code unit is modelled by its
  number. Class names, element ids and input types are plain ASCII identifiers that are
  only compared for equality; they are kept as \<open>string\<close>.

  All numbers of the lockout widget are whole seconds. A JavaScript Number holds every
  integer of magnitude up to \<open>2^53 - 1\<close> exactly, and on such values \<open>+\<close>, \<open>*\<close>, \<open>--\<close>,
  \<open>Math.floor\<close> and \<open>%\<close> are exact; they are modelled by \<open>int\<close>. Theorems that
  quantify over every value carry \<open>isSafeInteger\<close> as the range in which the model is
  the program.
\<close>

type_synonym code_unit = nat
type_synonym jsstring = "code_unit list"

definition js :: "string \<Rightarrow> jsstring" where
  "js s = map of_char s"

definition MAX_SAFE_INTEGER :: int where
  "MAX_SAFE_INTEGER = 2 ^ 53 - 1"

definition isSafeInteger :: "int \<Rightarrow> bool" where
  "isSafeInteger n \<longleftrightarrow> - MAX_SAFE_INTEGER \<le> n \<and> n \<le> MAX_SAFE_INTEGER"

text \<open>The character classes \<open>\d\<close> (ASCII digits only) and \<open>\s\<close> (white space and line
  terminators of ECMAScript).\<close>

definition is_digit :: "code_unit \<Rightarrow> bool" where
  "is_digit c \<longleftrightarrow> 48 \<le> c \<and> c \<le> 57"

definition is_space :: "code_unit \<Rightarrow> bool" where
  "is_space c \<longleftrightarrow>
     c = 9 \<or> c = 10 \<or> c = 11 \<or> c = 12 \<or> c = 13 \<or> c = 32 \<or> c = 160 \<or> c = 5760 \<or>
     (8192 \<le> c \<and> c \<le> 8202) \<or> c = 8232 \<or> c = 8233 \<or> c = 8239 \<or> c = 8287 \<or>
     c = 12288 \<or> c = 65279"

section \<open>Regular expressions as backtracking matchers\<close>

text \<open>
  A piece of a regular expression maps the rest of the input to the list of ways it can
  match there, in the order in which the backtracking engine tries them; the engine's
  answer is the head of the list. \<open>one_or_more P\<close> is a greedy \<open>[P]+\<close>: the longest run
  first, then shorter ones, never the empty one. \<open>lit l\<close> is the literal text \<open>l\<close>.
  Sequencing is the bind of the list monad.
\<close>

definition one_or_more :: "(code_unit \<Rightarrow> bool) \<Rightarrow> jsstring \<Rightarrow> (jsstring \<times> jsstring) list" where
  "one_or_more P s = map (\<lambda>k. (take k s, drop k s)) (rev [1..<Suc (length (takeWhile P s))])"

definition lit :: "jsstring \<Rightarrow> jsstring \<Rightarrow> jsstring list" where
  "lit l s = (if take (length l) s = l then [drop (length l) s] else [])"

text \<open>The three capture groups of a match; a group that did not take part is
  \<open>undefined\<close>, here \<open>None\<close>.\<close>

type_synonym groups = "jsstring option \<times> jsstring option \<times> jsstring option"

text \<open>First alternative: \<open>(\d+)\s+minute\(s\)\s+and\s+(\d+)\s+second\(s\)\<close>.\<close>

definition minutes_and_seconds :: "jsstring \<Rightarrow> groups list" where
  "minutes_and_seconds s = do {
     (g1, r1) \<leftarrow> one_or_more is_digit s;
     (w1, r2) \<leftarrow> one_or_more is_space r1;
     r3 \<leftarrow> lit (js ''minute(s)'') r2;
     (w2, r4) \<leftarrow> one_or_more is_space r3;
     r5 \<leftarrow> lit (js ''and'') r4;
     (w3, r6) \<leftarrow> one_or_more is_space r5;
     (g2, r7) \<leftarrow> one_or_more is_digit r6;
     (w4, r8) \<leftarrow> one_or_more is_space r7;
     r9 \<leftarrow> lit (js ''second(s)'') r8;
     [(Some g1, Some g2, None)]
   }"

text \<open>Second alternative: \<open>(\d+)\s+second\(s\)\<close>.\<close>

definition seconds_only :: "jsstring \<Rightarrow> groups list" where
  "seconds_only s = do {
     (g3, r1) \<leftarrow> one_or_more is_digit s;
     (w1, r2) \<leftarrow> one_or_more is_space r1;
     r3 \<leftarrow> lit (js ''second(s)'') r2;
     [(None, None, Some g3)]
   }"

text \<open>The whole pattern at one start position: the first alternative with all its
  backtracking, then the second.\<close>

definition duration_here :: "jsstring \<Rightarrow> groups list" where
  "duration_here s = minutes_and_seconds s @ seconds_only s"

text \<open>\<open>message.match(re)\<close> without the global flag: the start positions from left to
  right, the first match wins; \<open>null\<close> is \<open>None\<close>.\<close>

fun match_duration :: "jsstring \<Rightarrow> groups option" where
  "match_duration [] = (case duration_here [] of [] \<Rightarrow> None | g # _ \<Rightarrow> Some g)"
| "match_duration (c # cs) =
     (case duration_here (c # cs) of [] \<Rightarrow> match_duration cs | g # _ \<Rightarrow> Some g)"

text \<open>\<open>parseInt\<close> on a string: the value of the leading run of decimal digits, \<open>NaN\<close>
  when there is none. (Leading white space, a sign and the \<open>0x\<close> prefix are left out:
  the script calls \<open>parseInt\<close> on captures of \<open>\d+\<close> only.)\<close>

datatype jsvalue = Undefined | NaN | Num int

definition digits_value :: "jsstring \<Rightarrow> int" where
  "digits_value ds = foldl (\<lambda>acc c. acc * 10 + (int c - 48)) 0 ds"

definition parseInt :: "jsstring \<Rightarrow> jsvalue" where
  "parseInt s = (let ds = takeWhile is_digit s in if ds = [] then NaN else Num (digits_value ds))"

definition js_mult :: "jsvalue \<Rightarrow> jsvalue \<Rightarrow> jsvalue" where
  "js_mult a b = (case (a, b) of (Num x, Num y) \<Rightarrow> Num (x * y) | _ \<Rightarrow> NaN)"

definition js_plus :: "jsvalue \<Rightarrow> jsvalue \<Rightarrow> jsvalue" where
  "js_plus a b = (case (a, b) of (Num x, Num y) \<Rightarrow> Num (x + y) | _ \<Rightarrow> NaN)"

text \<open>Truthiness of a capture (a non-empty string) and of a number (neither \<open>0\<close> nor
  \<open>NaN\<close>).\<close>

definition truthy_group :: "jsstring option \<Rightarrow> bool" where
  "truthy_group g = (case g of None \<Rightarrow> False | Some s \<Rightarrow> s \<noteq> [])"

definition truthy :: "jsvalue \<Rightarrow> bool" where
  "truthy v = (case v of Num n \<Rightarrow> n \<noteq> 0 | _ \<Rightarrow> False)"

definition greater_zero :: "jsvalue \<Rightarrow> bool" where
  "greater_zero v = (case v of Num n \<Rightarrow> n > 0 | _ \<Rightarrow> False)"

text \<open>The computation of \<open>totalSeconds\<close> from the match (main.js, lines 124 to 132):
  declared without a value, assigned in one of two branches.\<close>

definition totalSeconds_of :: "groups \<Rightarrow> jsvalue" where
  "totalSeconds_of g =
     (case g of (g1, g2, g3) \<Rightarrow>
        if truthy_group g1 \<and> truthy_group g2 then
          (case (g1, g2) of
             (Some a, Some b) \<Rightarrow> js_plus (js_mult (parseInt a) (Num 60)) (parseInt b)
           | _ \<Rightarrow> Undefined)
        else if truthy_group g3 then
          (case g3 of Some c \<Rightarrow> parseInt c | None \<Rightarrow> Undefined)
        else Undefined)"

text \<open>The Duration Parser: \<open>None\<close> when the message has no match, else the value of
  \<open>totalSeconds\<close>.\<close>

definition parse_duration :: "jsstring \<Rightarrow> jsvalue option" where
  "parse_duration message = map_option totalSeconds_of (match_duration message)"


subsection \<open>The two duration shapes, in the words of the specification\<close>

text \<open>
  A run of digits and a run of white space are not empty. A string starts with the
  shape ``\<open>m\<close> minute(s) and \<open>s\<close> second(s)'' when it is the digits \<open>m\<close>, white space,
  the word \<open>minute(s)\<close>, white space, \<open>and\<close>, white space, the digits \<open>s\<close>, white space
  and \<open>second(s)\<close>, followed by anything; likewise for ``\<open>s\<close> second(s)''. A message
  contains a duration when one of the two shapes starts somewhere in it.
\<close>

definition digit_run :: "jsstring \<Rightarrow> bool" where
  "digit_run d \<longleftrightarrow> d \<noteq> [] \<and> (\<forall>c\<in>set d. is_digit c)"

definition space_run :: "jsstring \<Rightarrow> bool" where
  "space_run w \<longleftrightarrow> w \<noteq> [] \<and> (\<forall>c\<in>set w. is_space c)"

definition starts_minutes_seconds :: "jsstring \<Rightarrow> jsstring \<Rightarrow> jsstring \<Rightarrow> bool" where
  "starts_minutes_seconds m s str \<longleftrightarrow>
     (\<exists>w1 w2 w3 w4 rest.
        digit_run m \<and> space_run w1 \<and> space_run w2 \<and> space_run w3 \<and> digit_run s \<and> space_run w4 \<and>
        str = m @ w1 @ js ''minute(s)'' @ w2 @ js ''and'' @ w3 @ s @ w4 @ js ''second(s)'' @ rest)"

definition starts_seconds :: "jsstring \<Rightarrow> jsstring \<Rightarrow> bool" where
  "starts_seconds s str \<longleftrightarrow>
     (\<exists>w rest. digit_run s \<and> space_run w \<and> str = s @ w @ js ''second(s)'' @ rest)"

definition starts_duration :: "jsstring \<Rightarrow> bool" where
  "starts_duration str \<longleftrightarrow> (\<exists>m s. starts_minutes_seconds m s str) \<or> (\<exists>s. starts_seconds s str)"

definition contains_duration :: "jsstring \<Rightarrow> bool" where
  "contains_duration message \<longleftrightarrow> (\<exists>pre str. message = pre @ str \<and> starts_duration str)"

section \<open>The lockout countdown widget\<close>

subsection \<open>Formatting the remaining time\<close>

text \<open>\<open>Number.prototype.toString\<close> on an integer: its decimal digits, with a minus sign
  when negative.\<close>

function decimal :: "nat \<Rightarrow> jsstring" where
  "decimal n = (if n < 10 then [48 + n] else decimal (n div 10) @ [48 + n mod 10])"
  by pat_completeness auto
termination
  by (relation "measure id") auto

declare decimal.simps [simp del]

definition toString :: "int \<Rightarrow> jsstring" where
  "toString n = (if n < 0 then 45 # decimal (nat (- n)) else decimal (nat n))"

definition padStart :: "nat \<Rightarrow> code_unit \<Rightarrow> jsstring \<Rightarrow> jsstring" where
  "padStart targetLength c s = replicate (targetLength - length s) c @ s"

text \<open>The remainder operator \<open>%\<close> on integers: the result has the sign of the
  dividend.\<close>

definition js_rem :: "int \<Rightarrow> int \<Rightarrow> int" where
  "js_rem a b = (if a < 0 then - ((- a) mod \<bar>b\<bar>) else a mod \<bar>b\<bar>)"

definition formatTime :: "int \<Rightarrow> jsstring" where
  "formatTime seconds =
     (let minutes = seconds div 60;
          remainingSeconds = js_rem seconds 60
      in if minutes > 0
         then toString minutes @ js '':'' @ padStart 2 48 (toString remainingSeconds)
         else toString remainingSeconds @ js ''s'')"

text \<open>The progress percentage \<open>((originalSeconds - totalSeconds) / originalSeconds) * 100\<close>.
  A zero divisor gives \<open>NaN\<close> or \<open>Infinity\<close> in JavaScript, here \<open>NotFinite\<close>; otherwise the
  quotient is kept as the exact fraction that the floating-point result approximates
  (it is exact when the quotient is \<open>0\<close> or \<open>1\<close>).\<close>

datatype percentage = NotFinite | Percent rat

definition progressPercentage :: "int \<Rightarrow> int \<Rightarrow> percentage" where
  "progressPercentage originalSeconds totalSeconds =
     (if originalSeconds = 0 then NotFinite
      else Percent (of_int (originalSeconds - totalSeconds) / of_int originalSeconds * 100))"

subsection \<open>The page\<close>

text \<open>
  The part of the document the widget reads and writes. The page is taken to hold at most
  one element of class \<open>lockout-alert\<close>, and no element of its own with the class
  \<open>lockout-countdown\<close>, the ids \<open>lockout-timer\<close> and \<open>progress-bar\<close> or the class
  \<open>lockout-submission-warning\<close>: these belong to the widget.
\<close>

record alert_box =
  classList :: "string set"
  lockout_reason :: "jsstring option"  \<comment> \<open>\<open>textContent\<close> of the \<open>.lockout-reason\<close> child, if any\<close>
  background :: string
  borderColor :: string

datatype countdown_content = CountdownBlock | ExpiredNotice

datatype bar_width = Unset | Width percentage

text \<open>The variables of one call of \<open>startLockoutCountdown\<close>, shared with its interval
  callback: the counter, its start value, the two elements looked up by id (found or not)
  and whether the interval is still registered.\<close>

record closure =
  totalSeconds :: int
  originalSeconds :: int
  timerElement :: bool
  progressBar :: bool
  registered :: bool

datatype timeout = RemoveWarning | ResetAnimation

record page =
  alert :: "alert_box option"  \<comment> \<open>the element that carried \<open>lockout-alert\<close> at load\<close>
  container :: "countdown_content option"  \<comment> \<open>the \<open>.lockout-countdown\<close> block\<close>
  timer :: "jsstring option"  \<comment> \<open>\<open>textContent\<close> of \<open>#lockout-timer\<close>\<close>
  bar :: "bar_width option"  \<comment> \<open>\<open>style.width\<close> of \<open>#progress-bar\<close>\<close>
  countdown :: "closure option"
  animation :: string  \<comment> \<open>\<open>style.animation\<close> of the login form\<close>
  warning :: bool  \<comment> \<open>a \<open>.lockout-submission-warning\<close> is in the document\<close>
  timeouts :: "(nat \<times> timeout) list"  \<comment> \<open>pending \<open>setTimeout\<close> calls, delay in ms\<close>

text \<open>\<open>document.querySelector('.lockout-alert')\<close>.\<close>

definition query_lockout_alert :: "page \<Rightarrow> alert_box option" where
  "query_lockout_alert p =
     (case alert p of
        None \<Rightarrow> None
      | Some a \<Rightarrow> if ''lockout-alert'' \<in> classList a then Some a else None)"

subsection \<open>Start, tick and expiry\<close>

text \<open>The countdown block is created with the formatted total in the timer and an
  unstyled progress bar, and inserted after the reason (main.js, lines 136 to 154).\<close>

definition insert_countdown :: "int \<Rightarrow> page \<Rightarrow> page" where
  "insert_countdown t p =
     p\<lparr>container := Some CountdownBlock, timer := Some (formatTime t), bar := Some Unset\<rparr>"

definition startLockoutCountdown :: "int \<Rightarrow> page \<Rightarrow> page" where
  "startLockoutCountdown t p =
     p\<lparr>countdown := Some \<lparr>totalSeconds = t, originalSeconds = t,
            timerElement = (timer p \<noteq> None), progressBar = (bar p \<noteq> None),
            registered = True\<rparr>\<rparr>"

definition clearInterval :: "page \<Rightarrow> page" where
  "clearInterval p = p\<lparr>countdown := map_option (\<lambda>c. c\<lparr>registered := False\<rparr>) (countdown p)\<rparr>"

definition showLockoutExpired :: "page \<Rightarrow> page" where
  "showLockoutExpired p =
     (let lockoutAlert = query_lockout_alert p;
          p1 = (case container p of
                  None \<Rightarrow> p
                | Some _ \<Rightarrow> p\<lparr>container := Some ExpiredNotice\<rparr>)
      in case lockoutAlert of
           None \<Rightarrow> p1
         | Some a \<Rightarrow>
             p1\<lparr>alert := Some (a\<lparr>classList := insert ''alert-success'' (classList a - {''lockout-alert''}),
                                  background := ''linear-gradient(135deg, #f0fff4, #c6f6d5)'',
                                  borderColor := ''#68d391''\<rparr>)\<rparr>)"

text \<open>The body of the interval callback (main.js, lines 169 to 187).\<close>

definition interval_callback :: "page \<Rightarrow> page" where
  "interval_callback p =
     (case countdown p of
        None \<Rightarrow> p
      | Some c \<Rightarrow>
          let t = totalSeconds c - 1;
              p1 = p\<lparr>countdown := Some (c\<lparr>totalSeconds := t\<rparr>)\<rparr>;
              p2 = (if timerElement c then p1\<lparr>timer := Some (formatTime t)\<rparr> else p1);
              p3 = (if progressBar c
                    then p2\<lparr>bar := Some (Width (progressPercentage (originalSeconds c) t))\<rparr>
                    else p2)
          in if t \<le> 0 then showLockoutExpired (clearInterval p3) else p3)"

text \<open>One period of the timer: the callback runs while the interval is registered, and
  never after \<open>clearInterval\<close>.\<close>

definition tick :: "page \<Rightarrow> page" where
  "tick p =
     (case countdown p of
        None \<Rightarrow> p
      | Some c \<Rightarrow> if registered c then interval_callback p else p)"

text \<open>The handler that parses the message and starts the widget (main.js, lines 112 to
  162).\<close>

definition lockout_init :: "page \<Rightarrow> page" where
  "lockout_init p =
     (case query_lockout_alert p of
        None \<Rightarrow> p
      | Some lockoutAlert \<Rightarrow>
          (case lockout_reason lockoutAlert of
             None \<Rightarrow> p
           | Some message \<Rightarrow>
               (case match_duration message of
                  None \<Rightarrow> p
                | Some timeMatch \<Rightarrow>
                    (let total = totalSeconds_of timeMatch
                     in if truthy total \<and> greater_zero total
                        then (case total of
                                Num t \<Rightarrow> startLockoutCountdown t (insert_countdown t p)
                              | _ \<Rightarrow> p)
                        else p))))"

datatype countdown_state = Idle | Running | Expired

definition state_of :: "page \<Rightarrow> countdown_state" where
  "state_of p =
     (case countdown p of
        None \<Rightarrow> Idle
      | Some c \<Rightarrow> if registered c then Running else Expired)"

definition remainingSeconds :: "page \<Rightarrow> int option" where
  "remainingSeconds p = map_option totalSeconds (countdown p)"

subsection \<open>The submit handler of the login form\<close>

text \<open>The result is whether the default action was prevented, and the page (main.js,
  lines 232 to 268).\<close>

definition submit :: "page \<Rightarrow> bool \<times> page" where
  "submit p =
     (case query_lockout_alert p of
        None \<Rightarrow> (False, p)
      | Some lockoutAlert \<Rightarrow>
          if ''alert-success'' \<notin> classList lockoutAlert then
            (let p1 = p\<lparr>animation := ''shake 0.5s ease-in-out''\<rparr>;
                 p2 = (if \<not> warning p1
                       then p1\<lparr>warning := True, timeouts := timeouts p1 @ [(5000, RemoveWarning)]\<rparr>
                       else p1);
                 p3 = p2\<lparr>timeouts := timeouts p2 @ [(500, ResetAnimation)]\<rparr>
             in (True, p3))
          else (False, p))"

fun run_timeout :: "timeout \<Rightarrow> page \<Rightarrow> page" where
  "run_timeout RemoveWarning p = p\<lparr>warning := False\<rparr>"
| "run_timeout ResetAnimation p = p\<lparr>animation := []\<rparr>"

subsection \<open>The lifetime of the widget\<close>

text \<open>After the page is loaded, three things happen, in any order: the timer period
  elapses, the form is submitted, a pending timeout (the \<open>i\<close>-th) fires.\<close>

datatype event = Tick | Submit | Fire nat

fun step :: "page \<Rightarrow> event \<Rightarrow> page" where
  "step p Tick = tick p"
| "step p Submit = snd (submit p)"
| "step p (Fire i) =
     (if i < length (timeouts p)
      then run_timeout (snd (timeouts p ! i))
             (p\<lparr>timeouts := take i (timeouts p) @ drop (Suc i) (timeouts p)\<rparr>)
      else p)"

definition run :: "page \<Rightarrow> event list \<Rightarrow> page" where
  "run p evs = foldl step p evs"


section \<open>Password visibility toggle\<close>

text \<open>
  The elements that the toggle touches are objects with an identity: the inputs with their
  \<open>type\<close>, the toggle controls with their \<open>aria-label\<close> and \<open>title\<close> attributes (absent
  until set) and a reference to their first \<open>img\<close> descendant (if they have one), and the
  images with \<open>src\<close> and \<open>alt\<close>. A form is the store of these objects; an element is
  passed to a function as its identity in the store.
\<close>

record icon =
  src :: string
  alt :: string

record password_input =
  input_type :: string

record toggle_control =
  img :: "nat option"
  aria_label :: "string option"
  title_attr :: "string option"

record form_view =
  inputs :: "nat \<Rightarrow> password_input"
  controls :: "nat \<Rightarrow> toggle_control"
  images :: "nat \<Rightarrow> icon"

text \<open>The four kinds of assignment in the body of the toggle.\<close>

definition set_type :: "nat \<Rightarrow> string \<Rightarrow> form_view \<Rightarrow> form_view" where
  "set_type field t d = d\<lparr>inputs := (inputs d)(field := (inputs d field)\<lparr>input_type := t\<rparr>)\<rparr>"

definition set_icon :: "nat option \<Rightarrow> string \<Rightarrow> string \<Rightarrow> form_view \<Rightarrow> form_view" where
  "set_icon icon s a d =
     (case icon of
        None \<Rightarrow> d
      | Some k \<Rightarrow> d\<lparr>images := (images d)(k := (images d k)\<lparr>src := s, alt := a\<rparr>)\<rparr>)"

definition set_aria_label :: "nat \<Rightarrow> string \<Rightarrow> form_view \<Rightarrow> form_view" where
  "set_aria_label toggle v d =
     d\<lparr>controls := (controls d)(toggle := (controls d toggle)\<lparr>aria_label := Some v\<rparr>)\<rparr>"

definition set_title :: "nat \<Rightarrow> string \<Rightarrow> form_view \<Rightarrow> form_view" where
  "set_title toggle v d =
     d\<lparr>controls := (controls d)(toggle := (controls d toggle)\<lparr>title_attr := Some v\<rparr>)\<rparr>"

text \<open>\<open>togglePasswordField(field, toggle)\<close> of static/js/main.js, statement by
  statement.\<close>

definition togglePasswordField :: "nat \<Rightarrow> nat \<Rightarrow> form_view \<Rightarrow> form_view" where
  "togglePasswordField field toggle d =
     (let icon = img (controls d toggle)
      in if input_type (inputs d field) = ''password'' then
           set_title toggle ''Hide password''
             (set_aria_label toggle ''Hide password''
               (set_icon icon ''/static/uploads/eye-slash.png'' ''Hide password''
                 (set_type field ''text'' d)))
         else
           set_title toggle ''Show password''
             (set_aria_label toggle ''Show password''
               (set_icon icon ''/static/uploads/eye.png'' ''Show password''
                 (set_type field ''password'' d))))"

text \<open>\<open>toggleSpecificPasswordWithImages(field, toggle)\<close> of final_v2/static/js/main.js.\<close>

definition toggleSpecificPasswordWithImages :: "nat \<Rightarrow> nat \<Rightarrow> form_view \<Rightarrow> form_view" where
  "toggleSpecificPasswordWithImages field toggle d =
     (let icon = img (controls d toggle)
      in if input_type (inputs d field) = ''password'' then
           set_title toggle ''Hide password''
             (set_aria_label toggle ''Hide password''
               (set_icon icon ''/static/uploads/eye-slash.png'' ''Hide password''
                 (set_type field ''text'' d)))
         else
           set_title toggle ''Show password''
             (set_aria_label toggle ''Show password''
               (set_icon icon ''/static/uploads/eye.png'' ''Show password''
                 (set_type field ''password'' d))))"

text \<open>A form as the script sets it up: every input masked, every control with the image
  of its own number, labelled and titled \<open>Show password\<close>, every image the open eye.\<close>

definition masked_form :: form_view where
  "masked_form =
     \<lparr>inputs = (\<lambda>i. \<lparr>input_type = ''password''\<rparr>),
      controls = (\<lambda>j. \<lparr>img = Some j, aria_label = Some ''Show password'',
                        title_attr = Some ''Show password''\<rparr>),
      images = (\<lambda>k. \<lparr>src = ''/static/uploads/eye.png'', alt = ''Show password''\<rparr>)\<rparr>"

section \<open>Field validation\<close>

text \<open>A form field as \<open>validateField\<close> sees it; \<open>field_errors\<close> are the texts of the
  \<open>.field-error\<close> elements of the field's parent, in document order.\<close>

record form_field =
  field_value :: jsstring
  field_type :: string
  field_id :: string
  required :: bool
  field_classes :: "string set"
  field_errors :: "string list"

text \<open>\<open>String.prototype.trim\<close> removes the white space and line terminators at both
  ends, the same code units as \<open>\s\<close>.\<close>

definition trim :: "jsstring \<Rightarrow> jsstring" where
  "trim s = rev (dropWhile is_space (rev (dropWhile is_space s)))"

text \<open>\<open>/^[^\s@]+@[^\s@]+\.[^\s@]+$/\<close>: anchored at both ends of the input.\<close>

definition not_space_or_at :: "code_unit \<Rightarrow> bool" where
  "not_space_or_at c \<longleftrightarrow> \<not> is_space c \<and> c \<noteq> 64"

definition emailRegex :: "jsstring \<Rightarrow> unit list" where
  "emailRegex s = do {
     (a, r1) \<leftarrow> one_or_more not_space_or_at s;
     r2 \<leftarrow> lit (js ''@'') r1;
     (b, r3) \<leftarrow> one_or_more not_space_or_at r2;
     r4 \<leftarrow> lit (js ''.'') r3;
     (c, r5) \<leftarrow> one_or_more not_space_or_at r4;
     (if r5 = [] then [()] else [])
   }"

definition emailRegex_test :: "jsstring \<Rightarrow> bool" where
  "emailRegex_test s \<longleftrightarrow> emailRegex s \<noteq> []"

text \<open>The email shape in words: a local part, \<open>@\<close>, a domain, a dot and a last part, each
  non-empty and free of white space and \<open>@\<close>.\<close>

definition email_shape :: "jsstring \<Rightarrow> bool" where
  "email_shape v \<longleftrightarrow>
     (\<exists>a b c. a \<noteq> [] \<and> b \<noteq> [] \<and> c \<noteq> [] \<and>
        (\<forall>x\<in>set (a @ b @ c). \<not> is_space x \<and> x \<noteq> 64) \<and>
        v = a @ js ''@'' @ b @ js ''.'' @ c)"

definition showFieldError :: "form_field \<Rightarrow> string \<Rightarrow> form_field" where
  "showFieldError field message =
     field\<lparr>field_classes := insert ''error'' (field_classes field),
           field_errors := field_errors field @ [message]\<rparr>"

text \<open>\<open>validateField(field)\<close>; \<open>passwordField\<close> is the value of the element with the id
  \<open>register_password\<close>, if the document has one. The result is the returned \<open>isValid\<close>
  and the field after the call.\<close>

definition validateField :: "jsstring option \<Rightarrow> form_field \<Rightarrow> bool \<times> form_field" where
  "validateField passwordField field =
     (let v = trim (field_value field);
          f1 = field\<lparr>field_classes := field_classes field - {''error''}\<rparr>;
          f2 = f1\<lparr>field_errors := (case field_errors f1 of [] \<Rightarrow> [] | e # es \<Rightarrow> es)\<rparr>;
          (ok1, f3) = (if required f2 \<and> v = []
                       then (False, showFieldError f2 ''This field is required'')
                       else (True, f2));
          (ok2, f4) = (if field_type f3 = ''email'' \<and> v \<noteq> [] \<and> \<not> emailRegex_test v
                       then (False, showFieldError f3 ''Please enter a valid email address'')
                       else (ok1, f3));
          (ok3, f5) = (if field_id f4 = ''register_password'' \<and> v \<noteq> [] \<and> length v < 8
                       then (False, showFieldError f4 ''Password must be at least 8 characters long'')
                       else (ok2, f4));
          (ok4, f6) = (if field_id f5 = ''confirm_password'' \<and> v \<noteq> []
                       then (case passwordField of
                               None \<Rightarrow> (ok3, f5)
                             | Some pw \<Rightarrow>
                                 if v \<noteq> pw
                                 then (False, showFieldError f5 ''Passwords do not match'')
                                 else (ok3, f5))
                       else (ok3, f5))
      in (ok4, f6))"

section \<open>File size check\<close>

text \<open>The file input: the sizes in bytes of the selected files and the input's value.
  The result of the change handler is the alerts it showed and the input; setting the
  value of a file input to the empty string empties its list of files.\<close>

record file_input =
  files :: "nat list"
  input_value :: jsstring

definition file_change :: "file_input \<Rightarrow> string list \<times> file_input" where
  "file_change target =
     (case files target of
        [] \<Rightarrow> ([], target)
      | file # _ \<Rightarrow>
          if file > 5 * 1024 * 1024
          then ([''File size must be less than 5MB''], target\<lparr>files := [], input_value := []\<rparr>)
          else ([], target))"


section \<open>Pages as served, and what the claims observe\<close>

text \<open>A page as the server renders it for a locked account: the alert with its reason,
  and nothing of the widget yet.\<close>

definition locked_page :: "jsstring \<Rightarrow> page" where
  "locked_page message =
     \<lparr>alert = Some \<lparr>classList = {''alert'', ''lockout-alert''}, lockout_reason = Some message,
                     background = [], borderColor = []\<rparr>,
      container = None, timer = None, bar = None, countdown = None,
      animation = [], warning = False, timeouts = []\<rparr>"

text \<open>A page is served locked when its alert is in the locked category and not in the
  success category, and the widget has not touched it.\<close>

definition served_locked :: "page \<Rightarrow> bool" where
  "served_locked p \<longleftrightarrow>
     (case alert p of
        None \<Rightarrow> False
      | Some a \<Rightarrow> ''lockout-alert'' \<in> classList a \<and> ''alert-success'' \<notin> classList a) \<and>
     container p = None \<and> timer p = None \<and> bar p = None \<and> countdown p = None \<and>
     \<not> warning p \<and> timeouts p = []"

text \<open>The number of pending removals of a warning: it grows by one exactly when the
  submit handler inserts a warning.\<close>

definition pending_removals :: "page \<Rightarrow> nat" where
  "pending_removals p = length (filter (\<lambda>x. snd x = RemoveWarning) (timeouts p))"

text \<open>Three invariants of the lifetime of the widget: the counter stays between zero and
  its start value \<open>t\<close> and is positive while the interval is registered; the divisor of
  the progress percentage is never zero; the category of the alert follows the state of
  the countdown, and a displayed warning has its removal pending.\<close>

definition countdown_inv :: "int \<Rightarrow> page \<Rightarrow> bool" where
  "countdown_inv t p \<longleftrightarrow>
     (\<exists>c. countdown p = Some c \<and> originalSeconds c = t \<and> 0 \<le> totalSeconds c \<and>
          totalSeconds c \<le> t \<and> (registered c \<longrightarrow> 0 < totalSeconds c))"

definition divisor_inv :: "page \<Rightarrow> bool" where
  "divisor_inv p \<longleftrightarrow>
     (\<forall>c. countdown p = Some c \<longrightarrow> originalSeconds c \<noteq> 0) \<and> bar p \<noteq> Some (Width NotFinite)"

definition gate_inv :: "page \<Rightarrow> bool" where
  "gate_inv p \<longleftrightarrow>
     (state_of p = Expired \<longrightarrow> query_lockout_alert p = None) \<and>
     (state_of p \<noteq> Expired \<longrightarrow>
        (\<exists>a. query_lockout_alert p = Some a \<and> ''alert-success'' \<notin> classList a)) \<and>
     (warning p \<longrightarrow> (5000, RemoveWarning) \<in> set (timeouts p))"

section \<open>The duration parser agrees with the two shapes\<close>

subsection \<open>What the matchers accept\<close>

lemma one_or_more_iff:
  "(d, r) \<in> set (one_or_more P s) \<longleftrightarrow> d \<noteq> [] \<and> (\<forall>c\<in>set d. P c) \<and> s = d @ r"
proof
  assume "(d, r) \<in> set (one_or_more P s)"
  then obtain k where k: "1 \<le> k" "k \<le> length (takeWhile P s)" and d: "d = take k s" and r: "r = drop k s"
    by (auto simp: one_or_more_def)
  have le: "length (takeWhile P s) \<le> length s"
    by (rule length_takeWhile_le)
  have "take k s = take k (takeWhile P s)"
  proof -
    have "take k s = take k (takeWhile P s @ dropWhile P s)" by simp
    also have "\<dots> = take k (takeWhile P s)" using k(2) by (simp del: takeWhile_dropWhile_id)
    finally show ?thesis .
  qed
  then have "set d \<subseteq> set (takeWhile P s)"
    using d by (metis set_take_subset)
  then have "\<forall>c\<in>set d. P c"
    by (auto dest: set_takeWhileD)
  moreover have "d \<noteq> []" using k le d by auto
  moreover have "s = d @ r" using d r by simp
  ultimately show "d \<noteq> [] \<and> (\<forall>c\<in>set d. P c) \<and> s = d @ r" by simp
next
  assume a: "d \<noteq> [] \<and> (\<forall>c\<in>set d. P c) \<and> s = d @ r"
  then have "takeWhile P s = d @ takeWhile P r"
    by (simp add: takeWhile_append2)
  then have "length d \<le> length (takeWhile P s)" by simp
  moreover have "1 \<le> length d" using a by (cases d) auto
  moreover have "take (length d) s = d" "drop (length d) s = r" using a by auto
  ultimately show "(d, r) \<in> set (one_or_more P s)"
    unfolding one_or_more_def by (auto simp: image_iff intro!: bexI [of _ "length d"])
qed

lemma lit_iff: "r \<in> set (lit l s) \<longleftrightarrow> s = l @ r"
  by (auto simp: lit_def) (metis append_take_drop_id)





lemma in_bind: "y \<in> set (xs \<bind> f) \<longleftrightarrow> (\<exists>x\<in>set xs. y \<in> set (f x))"
  by (simp add: set_list_bind)

lemma run_bind_I:
  "d \<noteq> [] \<Longrightarrow> \<forall>c\<in>set d. P c \<Longrightarrow> y \<in> set (f d r) \<Longrightarrow>
   y \<in> set (one_or_more P (d @ r) \<bind> case_prod f)"
  unfolding in_bind by (rule bexI [of _ "(d, r)"]) (simp_all add: one_or_more_iff)

lemma lit_bind_I: "y \<in> set (f r) \<Longrightarrow> y \<in> set (lit l (l @ r) \<bind> f)"
  unfolding in_bind by (rule bexI [of _ r]) (simp_all add: lit_iff)

lemma seconds_only_iff:
  "g \<in> set (seconds_only str) \<longleftrightarrow> (\<exists>s. starts_seconds s str \<and> g = (None, None, Some s))"
proof
  assume "g \<in> set (seconds_only str)"
  then obtain s w rest where "g = (None, None, Some s)" "s \<noteq> []" "w \<noteq> []"
    "\<forall>x\<in>set w. is_space x" "\<forall>x\<in>set s. is_digit x" "str = s @ w @ js ''second(s)'' @ rest"
    unfolding seconds_only_def by (auto simp: in_bind one_or_more_iff lit_iff)
  then have "starts_seconds s str \<and> g = (None, None, Some s)"
    unfolding starts_seconds_def digit_run_def space_run_def by blast
  then show "\<exists>s. starts_seconds s str \<and> g = (None, None, Some s)" ..
next
  assume "\<exists>s. starts_seconds s str \<and> g = (None, None, Some s)"
  then obtain s w rest where g: "g = (None, None, Some s)" and f: "s \<noteq> []" "w \<noteq> []"
    "\<forall>x\<in>set w. is_space x" "\<forall>x\<in>set s. is_digit x" and str: "str = s @ w @ js ''second(s)'' @ rest"
    unfolding starts_seconds_def digit_run_def space_run_def by blast
  show "g \<in> set (seconds_only str)"
    unfolding seconds_only_def str g using f
    by (intro run_bind_I lit_bind_I) simp_all
qed

lemma minutes_and_seconds_iff:
  "g \<in> set (minutes_and_seconds str) \<longleftrightarrow>
     (\<exists>m s. starts_minutes_seconds m s str \<and> g = (Some m, Some s, None))"
proof
  assume "g \<in> set (minutes_and_seconds str)"
  then obtain m w1 w2 w3 s w4 rest where "g = (Some m, Some s, None)"
    "m \<noteq> []" "w1 \<noteq> []" "\<forall>x\<in>set w1. is_space x" "w2 \<noteq> []" "\<forall>x\<in>set w2. is_space x"
    "w3 \<noteq> []" "\<forall>x\<in>set w3. is_space x" "s \<noteq> []" "\<forall>x\<in>set s. is_digit x"
    "w4 \<noteq> []" "\<forall>x\<in>set w4. is_space x" "\<forall>x\<in>set m. is_digit x"
    "str = m @ w1 @ js ''minute(s)'' @ w2 @ js ''and'' @ w3 @ s @ w4 @ js ''second(s)'' @ rest"
    unfolding minutes_and_seconds_def by (auto simp: in_bind one_or_more_iff lit_iff)
  then have "starts_minutes_seconds m s str \<and> g = (Some m, Some s, None)"
    unfolding starts_minutes_seconds_def digit_run_def space_run_def by blast
  then show "\<exists>m s. starts_minutes_seconds m s str \<and> g = (Some m, Some s, None)" by blast
next
  assume "\<exists>m s. starts_minutes_seconds m s str \<and> g = (Some m, Some s, None)"
  then obtain m w1 w2 w3 s w4 rest where g: "g = (Some m, Some s, None)" and f:
    "m \<noteq> []" "w1 \<noteq> []" "\<forall>x\<in>set w1. is_space x" "w2 \<noteq> []" "\<forall>x\<in>set w2. is_space x"
    "w3 \<noteq> []" "\<forall>x\<in>set w3. is_space x" "s \<noteq> []" "\<forall>x\<in>set s. is_digit x"
    "w4 \<noteq> []" "\<forall>x\<in>set w4. is_space x" "\<forall>x\<in>set m. is_digit x" and
    str: "str = m @ w1 @ js ''minute(s)'' @ w2 @ js ''and'' @ w3 @ s @ w4 @ js ''second(s)'' @ rest"
    unfolding starts_minutes_seconds_def digit_run_def space_run_def by blast
  show "g \<in> set (minutes_and_seconds str)"
    unfolding minutes_and_seconds_def str g using f
    by (intro run_bind_I lit_bind_I) simp_all
qed


lemma space_not_digit: "is_space c \<Longrightarrow> \<not> is_digit c"
  by (auto simp: is_space_def is_digit_def)

lemma digit_not_space: "is_digit c \<Longrightarrow> \<not> is_space c"
  by (auto simp: is_space_def is_digit_def)

lemma takeWhile_run: "\<forall>c\<in>set d. P c \<Longrightarrow> \<not> P x \<Longrightarrow> takeWhile P (d @ x # r) = d"
  by (simp add: takeWhile_append2)

lemma dropWhile_run: "\<forall>c\<in>set d. P c \<Longrightarrow> \<not> P x \<Longrightarrow> dropWhile P (d @ x # r) = x # r"
  by (simp add: dropWhile_append2)

text \<open>A run of digits followed by white space, and a run of white space followed by a
  character that is none, are the maximal such runs.\<close>

lemma digits_then_spaces:
  assumes "digit_run d" "space_run w"
  shows "takeWhile is_digit (d @ w @ r) = d" "dropWhile is_digit (d @ w @ r) = w @ r"
proof -
  from assms(2) obtain x w' where w: "w = x # w'" "is_space x"
    by (cases w) (auto simp: space_run_def)
  from assms(1) have d: "\<forall>c\<in>set d. is_digit c" by (simp add: digit_run_def)
  show "takeWhile is_digit (d @ w @ r) = d"
    using takeWhile_run [OF d space_not_digit [OF w(2)]] w(1) by simp
  show "dropWhile is_digit (d @ w @ r) = w @ r"
    using dropWhile_run [OF d space_not_digit [OF w(2)]] w(1) by simp
qed

lemma spaces_then_other:
  assumes "space_run w" "\<not> is_space x"
  shows "dropWhile is_space (w @ x # r) = x # r"
  using assms dropWhile_run [of w is_space x r] by (simp add: space_run_def)

lemma minute_lit: "js ''minute(s)'' = 109 # js ''inute(s)''"
  by (simp add: js_def)

lemma and_lit: "js ''and'' = 97 # js ''nd''"
  by (simp add: js_def)

lemma second_lit: "js ''second(s)'' = 115 # js ''econd(s)''"
  by (simp add: js_def)

lemma not_space_letters: "\<not> is_space 109" "\<not> is_space 97" "\<not> is_space 115"
  by (simp_all add: is_space_def)

lemma starts_seconds_unique:
  assumes "starts_seconds s str"
  shows "s = takeWhile is_digit str"
    and "dropWhile is_space (dropWhile is_digit str) \<noteq> []"
    and "hd (dropWhile is_space (dropWhile is_digit str)) = 115"
proof -
  from assms obtain w rest where f: "digit_run s" "space_run w"
    and str: "str = s @ w @ js ''second(s)'' @ rest"
    unfolding starts_seconds_def by blast
  show "s = takeWhile is_digit str"
    unfolding str using digits_then_spaces(1) [OF f] by simp
  have "dropWhile is_space (dropWhile is_digit str) = js ''second(s)'' @ rest"
    unfolding str digits_then_spaces(2) [OF f]
    using spaces_then_other [OF f(2) not_space_letters(3)] by (simp add: second_lit)
  then show "dropWhile is_space (dropWhile is_digit str) \<noteq> []"
    and "hd (dropWhile is_space (dropWhile is_digit str)) = 115"
    by (simp_all add: second_lit)
qed

lemma starts_minutes_seconds_unique:
  assumes "starts_minutes_seconds m s str"
  shows "m = takeWhile is_digit str"
    and "hd (dropWhile is_space (dropWhile is_digit str)) = 109"
    and "s = takeWhile is_digit (dropWhile is_space (drop 3 (dropWhile is_space
             (drop 9 (dropWhile is_space (dropWhile is_digit str))))))"
proof -
  from assms obtain w1 w2 w3 w4 rest where f: "digit_run m" "space_run w1" "space_run w2"
    "space_run w3" "digit_run s" "space_run w4"
    and str: "str = m @ w1 @ js ''minute(s)'' @ w2 @ js ''and'' @ w3 @ s @ w4 @ js ''second(s)'' @ rest"
    unfolding starts_minutes_seconds_def by blast
  show "m = takeWhile is_digit str"
    unfolding str using digits_then_spaces(1) [OF f(1,2)] by simp
  have 1: "dropWhile is_space (dropWhile is_digit str) =
      js ''minute(s)'' @ w2 @ js ''and'' @ w3 @ s @ w4 @ js ''second(s)'' @ rest"
    unfolding str digits_then_spaces(2) [OF f(1,2)]
    using spaces_then_other [OF f(2) not_space_letters(1)] by (simp add: minute_lit)
  then show "hd (dropWhile is_space (dropWhile is_digit str)) = 109"
    by (simp add: minute_lit)
  have l: "length (js ''minute(s)'') = 9" "length (js ''and'') = 3"
    by (simp_all add: js_def)
  have 2: "dropWhile is_space (drop 9 (dropWhile is_space (dropWhile is_digit str))) =
      js ''and'' @ w3 @ s @ w4 @ js ''second(s)'' @ rest"
    unfolding 1 using spaces_then_other [OF f(3) not_space_letters(2)] l(1)
    by (simp add: and_lit)
  from f(5) obtain y s' where s: "s = y # s'" "is_digit y"
    by (cases s) (auto simp: digit_run_def)
  have 3: "dropWhile is_space (drop 3 (dropWhile is_space
             (drop 9 (dropWhile is_space (dropWhile is_digit str))))) = s @ w4 @ js ''second(s)'' @ rest"
    unfolding 2 using spaces_then_other [OF f(4) digit_not_space [OF s(2)]] l(2) s(1)
    by simp
  show "s = takeWhile is_digit (dropWhile is_space (drop 3 (dropWhile is_space
             (drop 9 (dropWhile is_space (dropWhile is_digit str))))))"
    unfolding 3 using digits_then_spaces(1) [OF f(5,6)] by simp
qed


lemma minutes_and_seconds_determ:
  assumes "starts_minutes_seconds m s str" "g \<in> set (minutes_and_seconds str)"
  shows "g = (Some m, Some s, None)"
proof -
  from assms(2) obtain m' s' where *: "starts_minutes_seconds m' s' str" "g = (Some m', Some s', None)"
    unfolding minutes_and_seconds_iff by blast
  show ?thesis
    using starts_minutes_seconds_unique(1,3) [OF assms(1)]
      starts_minutes_seconds_unique(1,3) [OF *(1)] *(2) by simp
qed

lemma seconds_only_determ:
  assumes "starts_seconds s str" "g \<in> set (seconds_only str)"
  shows "g = (None, None, Some s)"
proof -
  from assms(2) obtain s' where *: "starts_seconds s' str" "g = (None, None, Some s')"
    unfolding seconds_only_iff by blast
  show ?thesis
    using starts_seconds_unique(1) [OF assms(1)] starts_seconds_unique(1) [OF *(1)] *(2) by simp
qed

lemma seconds_excludes_minutes:
  assumes "starts_seconds s str"
  shows "minutes_and_seconds str = []"
proof (rule ccontr)
  assume "minutes_and_seconds str \<noteq> []"
  then obtain g where "g \<in> set (minutes_and_seconds str)"
    by (cases "minutes_and_seconds str") auto
  then obtain m' s' where "starts_minutes_seconds m' s' str"
    unfolding minutes_and_seconds_iff by blast
  from starts_minutes_seconds_unique(2) [OF this] starts_seconds_unique(3) [OF assms]
  show False by simp
qed

lemma duration_here_minutes:
  assumes "starts_minutes_seconds m s str"
  shows "\<exists>gs. duration_here str = (Some m, Some s, None) # gs"
proof -
  have "(Some m, Some s, None) \<in> set (minutes_and_seconds str)"
    unfolding minutes_and_seconds_iff using assms by blast
  then obtain g gs where gs: "minutes_and_seconds str = g # gs"
    by (cases "minutes_and_seconds str") auto
  then have "g \<in> set (minutes_and_seconds str)" by simp
  from minutes_and_seconds_determ [OF assms this] gs
  show ?thesis by (simp add: duration_here_def)
qed

lemma duration_here_seconds:
  assumes "starts_seconds s str"
  shows "\<exists>gs. duration_here str = (None, None, Some s) # gs"
proof -
  have "(None, None, Some s) \<in> set (seconds_only str)"
    unfolding seconds_only_iff using assms by blast
  then obtain g gs where gs: "seconds_only str = g # gs"
    by (cases "seconds_only str") auto
  then have "g \<in> set (seconds_only str)" by simp
  from seconds_only_determ [OF assms this] gs seconds_excludes_minutes [OF assms]
  show ?thesis by (simp add: duration_here_def)
qed

lemma duration_here_empty: "duration_here str = [] \<longleftrightarrow> \<not> starts_duration str"
proof -
  have "duration_here str = [] \<longleftrightarrow> (\<forall>g. g \<notin> set (minutes_and_seconds str)) \<and> (\<forall>g. g \<notin> set (seconds_only str))"
    by (auto simp: duration_here_def)
  also have "\<dots> \<longleftrightarrow> \<not> starts_duration str"
    unfolding minutes_and_seconds_iff seconds_only_iff starts_duration_def by blast
  finally show ?thesis .
qed

lemma match_duration_unfold:
  "match_duration str =
     (case duration_here str of
        [] \<Rightarrow> (case str of [] \<Rightarrow> None | c # cs \<Rightarrow> match_duration cs)
      | g # _ \<Rightarrow> Some g)"
  by (cases str) (simp_all split: list.splits)

lemma match_duration_skip:
  "\<forall>i<length pre. \<not> starts_duration (drop i (pre @ str)) \<Longrightarrow>
   match_duration (pre @ str) = match_duration str"
proof (induction pre)
  case Nil
  then show ?case by simp
next
  case (Cons c pre)
  from Cons.prems have "\<not> starts_duration (drop 0 ((c # pre) @ str))" by blast
  then have here: "duration_here (c # pre @ str) = []"
    by (simp add: duration_here_empty)
  have "\<forall>i<length pre. \<not> starts_duration (drop i (pre @ str))"
  proof (intro allI impI)
    fix i assume "i < length pre"
    then have "Suc i < length (c # pre)" by simp
    with Cons.prems have "\<not> starts_duration (drop (Suc i) ((c # pre) @ str))" by blast
    then show "\<not> starts_duration (drop i (pre @ str))" by simp
  qed
  from Cons.IH [OF this] here show ?case by simp
qed

lemma match_duration_None:
  "match_duration str = None \<longleftrightarrow> (\<forall>i\<le>length str. \<not> starts_duration (drop i str))"
proof (induction str)
  case Nil
  then show ?case by (simp add: duration_here_empty [symmetric] split: list.splits)
next
  case (Cons c str)
  have "(\<forall>i\<le>length (c # str). \<not> starts_duration (drop i (c # str))) \<longleftrightarrow>
        \<not> starts_duration (c # str) \<and> (\<forall>i\<le>length str. \<not> starts_duration (drop i str))"
    (is "?L \<longleftrightarrow> ?R")
  proof
    assume l: ?L
    then have "\<not> starts_duration (drop 0 (c # str))" by blast
    moreover have "\<forall>i\<le>length str. \<not> starts_duration (drop i str)"
    proof (intro allI impI)
      fix i assume "i \<le> length str"
      then have "Suc i \<le> length (c # str)" by simp
      with l have "\<not> starts_duration (drop (Suc i) (c # str))" by blast
      then show "\<not> starts_duration (drop i str)" by simp
    qed
    ultimately show ?R by simp
  next
    assume r: ?R
    show ?L
    proof (intro allI impI)
      fix i assume "i \<le> length (c # str)"
      then show "\<not> starts_duration (drop i (c # str))"
        using r by (cases i) auto
    qed
  qed
  with Cons.IH show ?case
    by (simp add: duration_here_empty [symmetric] split: list.splits)
qed

lemma parseInt_digits:
  assumes "digit_run d"
  shows "parseInt d = Num (digits_value d)"
proof -
  from assms have eq: "takeWhile is_digit d = d" and ne: "d \<noteq> []"
    by (simp_all add: digit_run_def)
  show ?thesis unfolding parseInt_def eq using ne by simp
qed

lemma totalSeconds_minutes:
  "digit_run m \<Longrightarrow> digit_run s \<Longrightarrow>
   totalSeconds_of (Some m, Some s, None) = Num (digits_value m * 60 + digits_value s)"
  by (simp add: totalSeconds_of_def truthy_group_def parseInt_digits js_mult_def js_plus_def)
    (simp add: digit_run_def)

lemma totalSeconds_seconds:
  "digit_run s \<Longrightarrow> totalSeconds_of (None, None, Some s) = Num (digits_value s)"
  by (simp add: totalSeconds_of_def truthy_group_def parseInt_digits)
    (simp add: digit_run_def)

lemma digits_value_simps:
  "digits_value [] = 0" "digits_value (ds @ [c]) = digits_value ds * 10 + (int c - 48)"
  by (simp_all add: digits_value_def)

lemma starts_minutes_seconds_example:
  "starts_minutes_seconds (js ''2'') (js ''5'') (js ''2 minute(s) and 5 second(s)'')"
  unfolding starts_minutes_seconds_def
  by (intro exI [of _ "js '' ''"] exI [of _ "[]"])
     (simp add: digit_run_def space_run_def js_def is_digit_def is_space_def)

lemma starts_minutes_seconds_sentence:
  "starts_minutes_seconds (js ''2'') (js ''5'') (js ''2 minute(s) and 5 second(s).'')"
proof -
  have "digit_run (js ''2'') \<and> space_run (js '' '') \<and> space_run (js '' '') \<and> space_run (js '' '') \<and>
      digit_run (js ''5'') \<and> space_run (js '' '') \<and>
      js ''2 minute(s) and 5 second(s).'' =
        js ''2'' @ js '' '' @ js ''minute(s)'' @ js '' '' @ js ''and'' @ js '' '' @ js ''5'' @
        js '' '' @ js ''second(s)'' @ js ''.''"
    by (simp add: digit_run_def space_run_def js_def is_digit_def is_space_def)
  then show ?thesis
    unfolding starts_minutes_seconds_def by blast
qed

lemma starts_seconds_example:
  "starts_seconds (js ''45'') (js ''45 second(s)'')"
  unfolding starts_seconds_def
  by (intro exI [of _ "js '' ''"] exI [of _ "[]"])
     (simp add: digit_run_def space_run_def js_def is_digit_def is_space_def)

lemma parse_minutes_seconds:
  assumes first: "\<forall>i<length pre. \<not> starts_duration (drop i (pre @ str))"
    and a: "starts_minutes_seconds m s str"
  shows "parse_duration (pre @ str) = Some (Num (digits_value m * 60 + digits_value s))"
proof -
  from a have d: "digit_run m" "digit_run s"
    unfolding starts_minutes_seconds_def by blast+
  from duration_here_minutes [OF a] obtain gs where "duration_here str = (Some m, Some s, None) # gs" ..
  then have "match_duration str = Some (Some m, Some s, None)"
    by (subst match_duration_unfold) simp
  then show ?thesis
    by (simp add: parse_duration_def match_duration_skip [OF first] totalSeconds_minutes [OF d])
qed

lemma parse_seconds:
  assumes first: "\<forall>i<length pre. \<not> starts_duration (drop i (pre @ str))"
    and a: "starts_seconds s str"
  shows "parse_duration (pre @ str) = Some (Num (digits_value s))"
proof -
  from a have d: "digit_run s"
    unfolding starts_seconds_def by blast
  from duration_here_seconds [OF a] obtain gs where "duration_here str = (None, None, Some s) # gs" ..
  then have "match_duration str = Some (None, None, Some s)"
    by (subst match_duration_unfold) simp
  then show ?thesis
    by (simp add: parse_duration_def match_duration_skip [OF first] totalSeconds_seconds [OF d])
qed

lemma starts_duration_digit:
  assumes "starts_duration str"
  shows "\<exists>c rest. str = c # rest \<and> is_digit c"
proof -
  from assms obtain d rest where "digit_run d" "str = d @ rest"
    unfolding starts_duration_def starts_minutes_seconds_def starts_seconds_def by blast
  then show ?thesis
    by (cases d) (auto simp: digit_run_def)
qed

lemma no_digit_prefix:
  assumes "\<forall>c\<in>set pre. \<not> is_digit c"
  shows "\<forall>i<length pre. \<not> starts_duration (drop i (pre @ str))"
proof (intro allI impI notI)
  fix i assume i: "i < length pre" and s: "starts_duration (drop i (pre @ str))"
  have "drop i (pre @ str) = pre ! i # drop (Suc i) pre @ str"
    using i by (simp add: Cons_nth_drop_Suc)
  with starts_duration_digit [OF s] have "is_digit (pre ! i)" by auto
  moreover have "pre ! i \<in> set pre" using i by simp
  ultimately show False using assms by blast
qed

text \<open>
  Claim C1. Let the first duration of a message start after the prefix \<open>pre\<close>, so that no
  duration starts inside \<open>pre\<close>. If it has the shape ``\<open>m\<close> minute(s) and \<open>s\<close> second(s)''
  the parsed total is \<open>m * 60 + s\<close>; if it has the shape ``\<open>s\<close> second(s)'' the parsed total
  is \<open>s\<close>. The numbers are the decimal values of the digit runs, within the range of the
  integers that a Number holds exactly.
\<close>

theorem duration_parser_correct:
  assumes first: "\<forall>i<length pre. \<not> starts_duration (drop i (pre @ str))"
  shows "(starts_minutes_seconds m s str \<longrightarrow> isSafeInteger (digits_value m * 60 + digits_value s) \<longrightarrow>
            parse_duration (pre @ str) = Some (Num (digits_value m * 60 + digits_value s))) \<and>
         (starts_seconds s str \<longrightarrow> isSafeInteger (digits_value s) \<longrightarrow>
            parse_duration (pre @ str) = Some (Num (digits_value s)))"
  using parse_minutes_seconds [OF first] parse_seconds [OF first] by blast

text \<open>The two examples of the specification, 125 and 45 seconds, and a duration inside a
  sentence.\<close>

theorem duration_parser_correct_witness:
  "parse_duration (js ''2 minute(s) and 5 second(s)'') = Some (Num 125) \<and>
   parse_duration (js ''45 second(s)'') = Some (Num 45) \<and>
   parse_duration (js ''Try again in 2 minute(s) and 5 second(s).'') = Some (Num 125)"
proof -
  have s: "isSafeInteger 125" "isSafeInteger 45"
    by (simp_all add: isSafeInteger_def MAX_SAFE_INTEGER_def)
  have v: "digits_value (js ''2'') * 60 + digits_value (js ''5'') = 125" "digits_value (js ''45'') = 45"
    by (simp_all add: digits_value_def js_def)
  have "parse_duration ([] @ js ''2 minute(s) and 5 second(s)'') = Some (Num 125)"
    using duration_parser_correct [of "[]" "js ''2 minute(s) and 5 second(s)''" "js ''2''" "js ''5''"]
      starts_minutes_seconds_example s v by simp
  moreover have "parse_duration ([] @ js ''45 second(s)'') = Some (Num 45)"
    using duration_parser_correct [of "[]" "js ''45 second(s)''" _ "js ''45''"]
      starts_seconds_example s v by simp
  moreover have "parse_duration (js ''Try again in '' @ js ''2 minute(s) and 5 second(s).'') = Some (Num 125)"
  proof -
    have "\<forall>c\<in>set (js ''Try again in ''). \<not> is_digit c"
      by (simp add: js_def is_digit_def)
    then have first: "\<forall>i<length (js ''Try again in '').
        \<not> starts_duration (drop i (js ''Try again in '' @ js ''2 minute(s) and 5 second(s).''))"
      by (rule no_digit_prefix)
    from duration_parser_correct [OF first, of "js ''2''" "js ''5''"]
      starts_minutes_seconds_sentence s v show ?thesis by simp
  qed
  ultimately show ?thesis by (simp add: js_def)
qed

section \<open>Messages without a duration\<close>

lemma contains_duration_iff:
  "contains_duration message \<longleftrightarrow> (\<exists>i\<le>length message. starts_duration (drop i message))"
proof
  assume "contains_duration message"
  then obtain pre str where m: "message = pre @ str" and s: "starts_duration str"
    unfolding contains_duration_def by blast
  have "length pre \<le> length message" "drop (length pre) message = str"
    using m by simp_all
  with s show "\<exists>i\<le>length message. starts_duration (drop i message)" by blast
next
  assume "\<exists>i\<le>length message. starts_duration (drop i message)"
  then obtain i where "starts_duration (drop i message)" by blast
  moreover have "message = take i message @ drop i message" by simp
  ultimately show "contains_duration message"
    unfolding contains_duration_def by blast
qed

lemma match_duration_None_iff: "match_duration message = None \<longleftrightarrow> \<not> contains_duration message"
  by (simp add: match_duration_None contains_duration_iff)

lemma no_digit_no_duration:
  assumes "\<forall>c\<in>set message. \<not> is_digit c"
  shows "\<not> contains_duration message"
proof
  assume "contains_duration message"
  then obtain pre str where m: "message = pre @ str" and s: "starts_duration str"
    unfolding contains_duration_def by blast
  from starts_duration_digit [OF s] obtain c rest where "str = c # rest" "is_digit c" by blast
  with m assms show False by simp
qed

lemma lockout_init_no_match:
  assumes "query_lockout_alert p = Some a" "lockout_reason a = Some message"
    "match_duration message = None"
  shows "lockout_init p = p"
  using assms by (simp add: lockout_init_def)

lemma query_locked_page:
  "query_lockout_alert (locked_page message) =
     Some \<lparr>classList = {''alert'', ''lockout-alert''}, lockout_reason = Some message,
           background = [], borderColor = []\<rparr>"
  by (simp add: query_lockout_alert_def locked_page_def)

text \<open>
  Claim C4. For a message that contains neither duration shape the match is \<open>null\<close>, the
  parser has no result, and the handler leaves the whole page as it is: no countdown
  block, no interval, and the reason text of the alert untouched.
\<close>

theorem unparseable_message_noop:
  assumes "query_lockout_alert p = Some a" "lockout_reason a = Some message"
    and "\<not> contains_duration message"
  shows "match_duration message = None \<and> parse_duration message = None \<and> lockout_init p = p"
proof -
  from assms(3) have n: "match_duration message = None"
    by (simp add: match_duration_None_iff)
  then show ?thesis
    using lockout_init_no_match [OF assms(1,2) n] by (simp add: parse_duration_def)
qed

text \<open>A message without a duration, on the page as served.\<close>

theorem unparseable_message_noop_witness:
  "\<not> contains_duration (js ''Your account is locked.'') \<and>
   parse_duration (js ''Your account is locked.'') = None \<and>
   lockout_init (locked_page (js ''Your account is locked.'')) = locked_page (js ''Your account is locked.'')"
proof -
  have n: "\<not> contains_duration (js ''Your account is locked.'')"
    by (rule no_digit_no_duration) (simp add: js_def is_digit_def)
  show ?thesis
    using unparseable_message_noop [OF query_locked_page _ n] n by simp
qed

section \<open>The countdown\<close>

subsection \<open>One period of the timer\<close>

lemma query_showLockoutExpired: "query_lockout_alert (showLockoutExpired p) = None"
  by (auto simp: showLockoutExpired_def query_lockout_alert_def Let_def split: option.splits if_splits)

lemma countdown_showLockoutExpired: "countdown (showLockoutExpired p) = countdown p"
  by (simp add: showLockoutExpired_def Let_def split: option.splits)

lemma container_showLockoutExpired:
  "container (showLockoutExpired p) = map_option (\<lambda>_. ExpiredNotice) (container p)"
  by (simp add: showLockoutExpired_def Let_def split: option.splits)

lemma rest_showLockoutExpired:
  "timer (showLockoutExpired p) = timer p" "bar (showLockoutExpired p) = bar p"
  "warning (showLockoutExpired p) = warning p" "timeouts (showLockoutExpired p) = timeouts p"
  "animation (showLockoutExpired p) = animation p"
  by (simp_all add: showLockoutExpired_def Let_def split: option.splits)

lemma tick_idle: "countdown p = None \<Longrightarrow> tick p = p"
  by (simp add: tick_def)

lemma tick_expired: "countdown p = Some c \<Longrightarrow> \<not> registered c \<Longrightarrow> tick p = p"
  by (simp add: tick_def)

lemma tick_running:
  assumes "countdown p = Some c" "registered c" "1 < totalSeconds c"
  shows "countdown (tick p) = Some (c\<lparr>totalSeconds := totalSeconds c - 1\<rparr>)"
    and "alert (tick p) = alert p" and "container (tick p) = container p"
    and "warning (tick p) = warning p" and "timeouts (tick p) = timeouts p"
    and "timer (tick p) = (if timerElement c then Some (formatTime (totalSeconds c - 1)) else timer p)"
    and "bar (tick p) = (if progressBar c
           then Some (Width (progressPercentage (originalSeconds c) (totalSeconds c - 1))) else bar p)"
  using assms by (simp_all add: tick_def interval_callback_def Let_def)

lemma tick_last:
  assumes "countdown p = Some c" "registered c" "totalSeconds c \<le> 1"
  shows "countdown (tick p) = Some (c\<lparr>totalSeconds := totalSeconds c - 1, registered := False\<rparr>)"
    and "query_lockout_alert (tick p) = None"
    and "container (tick p) = map_option (\<lambda>_. ExpiredNotice) (container p)"
    and "warning (tick p) = warning p" and "timeouts (tick p) = timeouts p"
    and "timer (tick p) = (if timerElement c then Some (formatTime (totalSeconds c - 1)) else timer p)"
    and "bar (tick p) = (if progressBar c
           then Some (Width (progressPercentage (originalSeconds c) (totalSeconds c - 1))) else bar p)"
  using assms
  by (simp_all add: tick_def interval_callback_def Let_def query_showLockoutExpired
      countdown_showLockoutExpired container_showLockoutExpired rest_showLockoutExpired
      clearInterval_def)

lemma ticks_running:
  assumes "countdown p = Some c" "registered c"
  shows "int k < totalSeconds c \<Longrightarrow>
         countdown ((tick ^^ k) p) = Some (c\<lparr>totalSeconds := totalSeconds c - int k\<rparr>) \<and>
         alert ((tick ^^ k) p) = alert p \<and> container ((tick ^^ k) p) = container p"
proof (induction k)
  case 0
  then show ?case using assms by simp
next
  case (Suc k)
  then have ih: "countdown ((tick ^^ k) p) = Some (c\<lparr>totalSeconds := totalSeconds c - int k\<rparr>)"
    "alert ((tick ^^ k) p) = alert p" "container ((tick ^^ k) p) = container p"
    by simp_all
  have r: "registered (c\<lparr>totalSeconds := totalSeconds c - int k\<rparr>)"
    "1 < totalSeconds (c\<lparr>totalSeconds := totalSeconds c - int k\<rparr>)"
    using assms(2) Suc.prems by simp_all
  show ?case
    using tick_running(1,2,3) [OF ih(1) r] ih(2,3) by (simp add: algebra_simps)
qed

lemma ticks_fixed: "tick q = q \<Longrightarrow> (tick ^^ k) q = q"
  by (induction k) simp_all

lemma start_countdown:
  "countdown (startLockoutCountdown t (insert_countdown t p0)) =
     Some \<lparr>totalSeconds = t, originalSeconds = t, timerElement = True, progressBar = True,
           registered = True\<rparr>"
  "container (startLockoutCountdown t (insert_countdown t p0)) = Some CountdownBlock"
  "alert (startLockoutCountdown t (insert_countdown t p0)) = alert p0"
  "timer (startLockoutCountdown t (insert_countdown t p0)) = Some (formatTime t)"
  "bar (startLockoutCountdown t (insert_countdown t p0)) = Some Unset"
  "warning (startLockoutCountdown t (insert_countdown t p0)) = warning p0"
  "timeouts (startLockoutCountdown t (insert_countdown t p0)) = timeouts p0"
  by (simp_all add: startLockoutCountdown_def insert_countdown_def)

text \<open>A countdown of \<open>n\<close> seconds: running with \<open>n - k\<close> seconds left after \<open>k < n\<close>
  ticks, expired with none left after \<open>n\<close> ticks, and unchanged by every later tick.\<close>

lemma countdown_course:
  fixes n :: nat and p0 :: page
  assumes n: "0 < n"
    and p_def: "p = startLockoutCountdown (int n) (insert_countdown (int n) p0)"
  shows "k < n \<Longrightarrow> state_of ((tick ^^ k) p) = Running \<and>
           remainingSeconds ((tick ^^ k) p) = Some (int n - int k)"
    and "state_of ((tick ^^ n) p) = Expired"
    and "remainingSeconds ((tick ^^ n) p) = Some 0"
    and "container ((tick ^^ n) p) = Some ExpiredNotice"
    and "query_lockout_alert ((tick ^^ n) p) = None"
    and "(tick ^^ j) ((tick ^^ n) p) = (tick ^^ n) p"
proof -
  let ?c = "\<lparr>totalSeconds = int n, originalSeconds = int n, timerElement = True,
             progressBar = True, registered = True\<rparr>"
  have c: "countdown p = Some ?c" and ct: "container p = Some CountdownBlock"
    unfolding p_def by (simp_all add: start_countdown)
  have run: "int k < int n \<Longrightarrow>
      countdown ((tick ^^ k) p) = Some (?c\<lparr>totalSeconds := int n - int k\<rparr>) \<and>
      alert ((tick ^^ k) p) = alert p \<and> container ((tick ^^ k) p) = container p" for k
    using ticks_running [OF c, of k] by simp
  show "k < n \<Longrightarrow> state_of ((tick ^^ k) p) = Running \<and>
           remainingSeconds ((tick ^^ k) p) = Some (int n - int k)"
    using run [of k] by (simp add: state_of_def remainingSeconds_def)
  obtain m where m: "n = Suc m" using n by (cases n) auto
  let ?q = "(tick ^^ m) p"
  have q: "countdown ?q = Some (?c\<lparr>totalSeconds := 1\<rparr>)" "container ?q = Some CountdownBlock"
    using run [of m] m ct by simp_all
  have last: "(tick ^^ n) p = tick ?q"
    by (simp add: m)
  have l: "countdown (tick ?q) = Some (?c\<lparr>totalSeconds := 0, registered := False\<rparr>)"
    "query_lockout_alert (tick ?q) = None"
    "container (tick ?q) = Some ExpiredNotice"
    using tick_last(1,2,3) [OF q(1)] q(2) by simp_all
  show "state_of ((tick ^^ n) p) = Expired" "remainingSeconds ((tick ^^ n) p) = Some 0"
    "container ((tick ^^ n) p) = Some ExpiredNotice" "query_lockout_alert ((tick ^^ n) p) = None"
    unfolding last using l by (simp_all add: state_of_def remainingSeconds_def)
  have "tick (tick ?q) = tick ?q"
    using tick_expired [OF l(1)] by simp
  then show "(tick ^^ j) ((tick ^^ n) p) = (tick ^^ n) p"
    unfolding last by (rule ticks_fixed)
qed

text \<open>
  Claim C2. A countdown started with 125 seconds is running with one second left after
  124 ticks; after exactly 125 ticks no second is left, the interval is cleared, the
  block shows the expired notice and no element is in the \<open>lockout-alert\<close> category any
  more. The 126th tick, and every later one, changes nothing on the page.
\<close>

theorem countdown_125_expires:
  "let p = startLockoutCountdown 125 (insert_countdown 125 p0);
       q = (tick ^^ 125) p
   in state_of p = Running \<and> remainingSeconds p = Some 125 \<and>
      state_of ((tick ^^ 124) p) = Running \<and> remainingSeconds ((tick ^^ 124) p) = Some 1 \<and>
      remainingSeconds q = Some 0 \<and> state_of q = Expired \<and>
      container q = Some ExpiredNotice \<and> query_lockout_alert q = None \<and>
      (tick ^^ 126) p = q \<and> (\<forall>j. (tick ^^ j) q = q)"
proof -
  define p where "p = startLockoutCountdown 125 (insert_countdown 125 p0)"
  have p: "p = startLockoutCountdown (int 125) (insert_countdown (int 125) p0)"
    by (simp add: p_def)
  have pos: "0 < (125::nat)" by simp
  note course = countdown_course [OF pos p]
  have "(126::nat) = 1 + 125" by simp
  then have "(tick ^^ 126) p = (tick ^^ 1) ((tick ^^ 125) p)"
    by (simp only: funpow_add o_apply)
  then have "(tick ^^ 126) p = (tick ^^ 125) p"
    using course(6) [of 1] by simp
  moreover have "state_of p = Running \<and> remainingSeconds p = Some 125"
    using course(1) [of 0] by simp
  moreover have "state_of ((tick ^^ 124) p) = Running \<and> remainingSeconds ((tick ^^ 124) p) = Some 1"
    using course(1) [of 124] by simp
  ultimately have "state_of p = Running \<and> remainingSeconds p = Some 125 \<and>
      state_of ((tick ^^ 124) p) = Running \<and> remainingSeconds ((tick ^^ 124) p) = Some 1 \<and>
      remainingSeconds ((tick ^^ 125) p) = Some 0 \<and> state_of ((tick ^^ 125) p) = Expired \<and>
      container ((tick ^^ 125) p) = Some ExpiredNotice \<and>
      query_lockout_alert ((tick ^^ 125) p) = None \<and>
      (tick ^^ 126) p = (tick ^^ 125) p \<and> (\<forall>j. (tick ^^ j) ((tick ^^ 125) p) = (tick ^^ 125) p)"
    using course(2,3,4,5,6) by simp
  then show ?thesis
    unfolding Let_def p_def .
qed

subsection \<open>Submitting, and timeouts\<close>

lemma submit_frame:
  "countdown (snd (submit p)) = countdown p" "alert (snd (submit p)) = alert p"
  "container (snd (submit p)) = container p" "timer (snd (submit p)) = timer p"
  "bar (snd (submit p)) = bar p"
  by (simp_all add: submit_def Let_def split: option.splits)

lemma submit_blocked:
  assumes "query_lockout_alert p = Some a" "''alert-success'' \<notin> classList a"
  shows "fst (submit p)" and "warning (snd (submit p))"
    and "timeouts (snd (submit p)) =
           timeouts p @ (if warning p then [] else [(5000, RemoveWarning)]) @ [(500, ResetAnimation)]"
  using assms by (simp_all add: submit_def Let_def)

lemma submit_open: "query_lockout_alert p = None \<Longrightarrow> submit p = (False, p)"
  by (simp add: submit_def)

lemma run_timeout_frame:
  "countdown (run_timeout x p) = countdown p" "alert (run_timeout x p) = alert p"
  "container (run_timeout x p) = container p" "timer (run_timeout x p) = timer p"
  "bar (run_timeout x p) = bar p" "timeouts (run_timeout x p) = timeouts p"
  by (cases x, simp_all)+

lemma fire_frame:
  "countdown (step p (Fire i)) = countdown p" "alert (step p (Fire i)) = alert p"
  "container (step p (Fire i)) = container p" "timer (step p (Fire i)) = timer p"
  "bar (step p (Fire i)) = bar p"
  by (simp_all add: run_timeout_frame)

lemma query_cong:
  "alert q = alert p \<Longrightarrow> query_lockout_alert q = query_lockout_alert p"
  by (simp add: query_lockout_alert_def)

lemma state_cong: "countdown q = countdown p \<Longrightarrow> state_of q = state_of p"
  by (simp add: state_of_def)

lemma remove_nth_keeps:
  assumes "x \<in> set ts" "i < length ts" "ts ! i \<noteq> x"
  shows "x \<in> set (take i ts @ drop (Suc i) ts)"
proof -
  have "ts = take i ts @ ts ! i # drop (Suc i) ts"
    using assms(2) by (rule id_take_nth_drop)
  then have "set ts = set (take i ts) \<union> {ts ! i} \<union> set (drop (Suc i) ts)"
  proof -
    assume e: "ts = take i ts @ ts ! i # drop (Suc i) ts"
    have "set ts = set (take i ts @ ts ! i # drop (Suc i) ts)"
      using e by simp
    then show ?thesis by auto
  qed
  with assms(1,3) show ?thesis by auto
qed

subsection \<open>The counter stays in range\<close>

lemma step_countdown_inv:
  assumes "countdown_inv t p"
  shows "countdown_inv t (step p e)"
proof (cases e)
  case Tick
  from assms obtain c where c: "countdown p = Some c" "originalSeconds c = t"
    "0 \<le> totalSeconds c" "totalSeconds c \<le> t" "registered c \<longrightarrow> 0 < totalSeconds c"
    unfolding countdown_inv_def by blast
  show ?thesis
  proof (cases "registered c")
    case False
    then show ?thesis using tick_expired [OF c(1)] assms Tick by simp
  next
    case True
    show ?thesis
    proof (cases "1 < totalSeconds c")
      case True
      with tick_running(1) [OF c(1) \<open>registered c\<close>] c Tick show ?thesis
        by (simp add: countdown_inv_def)
    next
      case False
      then have "totalSeconds c \<le> 1" by simp
      with tick_last(1) [OF c(1) \<open>registered c\<close>] c True Tick show ?thesis
        by (simp add: countdown_inv_def)
    qed
  qed
next
  case Submit
  then show ?thesis using assms by (simp add: countdown_inv_def submit_frame)
next
  case (Fire i)
  then show ?thesis using assms fire_frame(1) [of p i] by (simp add: countdown_inv_def)
qed

lemma run_countdown_inv: "countdown_inv t p \<Longrightarrow> countdown_inv t (run p evs)"
  unfolding run_def by (induction evs arbitrary: p) (simp_all add: step_countdown_inv)

text \<open>
  Claim C3. A countdown is started with a positive total \<open>t\<close>. Whatever happens
  afterwards (ticks, submits, timeouts, in any number and order), the counter stays
  between \<open>0\<close> and \<open>t\<close>, and the start value captured in \<open>originalSeconds\<close> is still \<open>t\<close>.
\<close>

theorem remaining_within_total:
  assumes "0 < t" "isSafeInteger t"
  shows "\<exists>c. countdown (run (startLockoutCountdown t p) evs) = Some c \<and>
             originalSeconds c = t \<and> 0 \<le> totalSeconds c \<and> totalSeconds c \<le> t"
proof -
  have "countdown_inv t (startLockoutCountdown t p)"
    using assms(1) by (simp add: countdown_inv_def startLockoutCountdown_def)
  from run_countdown_inv [OF this, of evs] show ?thesis
    unfolding countdown_inv_def by blast
qed

theorem remaining_within_total_witness:
  "(0::int) < 125 \<and> isSafeInteger 125 \<and>
   (\<exists>c. countdown (run (startLockoutCountdown 125 (locked_page [])) [Tick, Submit, Tick, Fire 0]) = Some c \<and>
        originalSeconds c = 125 \<and> 0 \<le> totalSeconds c \<and> totalSeconds c \<le> 125)"
proof -
  have h: "(0::int) < 125" "isSafeInteger 125"
    by (simp_all add: isSafeInteger_def MAX_SAFE_INTEGER_def)
  from remaining_within_total [OF h, of "locked_page []" "[Tick, Submit, Tick, Fire 0]"] h
  show ?thesis by simp
qed

subsection \<open>The divisor of the progress percentage\<close>

lemma step_divisor_inv:
  assumes "divisor_inv p"
  shows "divisor_inv (step p e)"
proof (cases e)
  case Tick
  show ?thesis
  proof (cases "countdown p")
    case None
    then show ?thesis using assms Tick by (simp add: tick_idle)
  next
    case (Some c)
    with assms have o: "originalSeconds c \<noteq> 0" "bar p \<noteq> Some (Width NotFinite)"
      by (simp_all add: divisor_inv_def)
    then have w: "Width (progressPercentage (originalSeconds c) x) \<noteq> Width NotFinite" for x
      by (simp add: progressPercentage_def)
    show ?thesis
    proof (cases "registered c")
      case False
      then show ?thesis using tick_expired [OF Some] assms Tick by simp
    next
      case True
      show ?thesis
      proof (cases "1 < totalSeconds c")
        case True
        with tick_running(1,7) [OF Some \<open>registered c\<close>] o w Tick show ?thesis
          by (simp add: divisor_inv_def)
      next
        case False
        then have "totalSeconds c \<le> 1" by simp
        with tick_last(1,7) [OF Some \<open>registered c\<close>] o w Tick show ?thesis
          by (simp add: divisor_inv_def)
      qed
    qed
  qed
next
  case Submit
  then show ?thesis using assms by (simp add: divisor_inv_def submit_frame)
next
  case (Fire i)
  then show ?thesis using assms fire_frame(1,5) [of p i] by (simp add: divisor_inv_def)
qed

lemma run_divisor_inv: "divisor_inv p \<Longrightarrow> divisor_inv (run p evs)"
  unfolding run_def by (induction evs arbitrary: p) (simp_all add: step_divisor_inv)

text \<open>What the handler does, by the value of \<open>totalSeconds\<close>.\<close>

lemma lockout_init_cases:
  "lockout_init p = p \<or>
   (\<exists>t. 0 < t \<and> lockout_init p = startLockoutCountdown t (insert_countdown t p))"
  by (auto simp: lockout_init_def Let_def truthy_def greater_zero_def
      split: option.splits jsvalue.splits)

lemma lockout_init_started:
  assumes "query_lockout_alert p = Some a" "lockout_reason a = Some message"
    "parse_duration message = Some (Num t)" "0 < t"
  shows "lockout_init p = startLockoutCountdown t (insert_countdown t p)"
  using assms
  by (auto simp: lockout_init_def parse_duration_def Let_def truthy_def greater_zero_def)

lemma lockout_init_zero:
  assumes "query_lockout_alert p = Some a" "lockout_reason a = Some message"
    "parse_duration message = Some (Num 0)"
  shows "lockout_init p = p"
  using assms
  by (auto simp: lockout_init_def parse_duration_def Let_def truthy_def greater_zero_def)

lemma lockout_init_divisor_inv:
  assumes "countdown p = None" "bar p = None"
  shows "divisor_inv (lockout_init p)"
  using lockout_init_cases [of p] assms
  by (auto simp: divisor_inv_def start_countdown)

text \<open>
  Claim C5. When the parsed total is zero the handler leaves the page as it is: no
  countdown block and no interval. And on a page that the handler has initialised,
  whatever happens afterwards, the divisor \<open>originalSeconds\<close> of the progress percentage is
  not zero and the width written to the progress bar is a finite percentage.
\<close>

theorem zero_duration_guard:
  "(query_lockout_alert p = Some a \<longrightarrow> lockout_reason a = Some message \<longrightarrow>
      parse_duration message = Some (Num 0) \<longrightarrow> lockout_init p = p) \<and>
   (countdown p = None \<longrightarrow> bar p = None \<longrightarrow>
      (\<forall>c. countdown (run (lockout_init p) evs) = Some c \<longrightarrow> originalSeconds c \<noteq> 0) \<and>
      bar (run (lockout_init p) evs) \<noteq> Some (Width NotFinite))"
proof (intro conjI impI)
  assume "query_lockout_alert p = Some a" "lockout_reason a = Some message"
    "parse_duration message = Some (Num 0)"
  then show "lockout_init p = p" by (rule lockout_init_zero)
next
  assume "countdown p = None" "bar p = None"
  then have "divisor_inv (run (lockout_init p) evs)"
    by (intro run_divisor_inv lockout_init_divisor_inv)
  then show "\<forall>c. countdown (run (lockout_init p) evs) = Some c \<longrightarrow> originalSeconds c \<noteq> 0"
    and "bar (run (lockout_init p) evs) \<noteq> Some (Width NotFinite)"
    by (simp_all add: divisor_inv_def)
qed

lemma zero_seconds_example: "parse_duration (js ''0 second(s)'') = Some (Num 0)"
proof -
  have "starts_seconds (js ''0'') (js ''0 second(s)'')"
    unfolding starts_seconds_def
    by (intro exI [of _ "js '' ''"] exI [of _ "[]"])
       (simp add: digit_run_def space_run_def js_def is_digit_def is_space_def)
  from parse_seconds [of "[]", OF _ this] show ?thesis
    by (simp add: digits_value_def js_def)
qed

theorem zero_duration_guard_witness:
  "parse_duration (js ''0 second(s)'') = Some (Num 0) \<and>
   lockout_init (locked_page (js ''0 second(s)'')) = locked_page (js ''0 second(s)'') \<and>
   countdown (run (lockout_init (locked_page (js ''0 second(s)''))) [Tick, Tick]) = None \<and>
   bar (run (lockout_init (locked_page (js ''2 second(s)''))) [Tick]) \<noteq> Some (Width NotFinite)"
proof -
  have f: "countdown (locked_page m) = None" "bar (locked_page m) = None" for m
    by (simp_all add: locked_page_def)
  have i: "lockout_init (locked_page (js ''0 second(s)'')) = locked_page (js ''0 second(s)'')"
    using zero_duration_guard [of "locked_page (js ''0 second(s)'')" _ "js ''0 second(s)''"]
      query_locked_page zero_seconds_example by simp
  have "bar (run (lockout_init (locked_page (js ''2 second(s)''))) [Tick]) \<noteq> Some (Width NotFinite)"
    using zero_duration_guard [of "locked_page (js ''2 second(s)'')" _ _ "[Tick]"] f by simp
  then show ?thesis
    using i zero_seconds_example f by (simp add: run_def tick_idle)
qed

section \<open>Gating the login form\<close>

subsection \<open>The category of the alert follows the countdown\<close>

lemma step_gate_inv:
  assumes "gate_inv p"
  shows "gate_inv (step p e)"
proof (cases e)
  case Tick
  show ?thesis
  proof (cases "countdown p")
    case None
    then show ?thesis using assms Tick by (simp add: tick_idle)
  next
    case (Some c)
    show ?thesis
    proof (cases "registered c")
      case False
      then show ?thesis using tick_expired [OF Some] assms Tick by simp
    next
      case True
      then have ne: "state_of p \<noteq> Expired"
        using Some by (simp add: state_of_def)
      show ?thesis
      proof (cases "1 < totalSeconds c")
        case True
        from tick_running [OF Some \<open>registered c\<close> True]
        have t: "countdown (tick p) = Some (c\<lparr>totalSeconds := totalSeconds c - 1\<rparr>)"
          "alert (tick p) = alert p" "warning (tick p) = warning p" "timeouts (tick p) = timeouts p"
          by simp_all
        have "state_of (tick p) \<noteq> Expired"
          using t(1) \<open>registered c\<close> by (simp add: state_of_def)
        moreover have "query_lockout_alert (tick p) = query_lockout_alert p"
          using t(2) by (rule query_cong)
        ultimately show ?thesis
          using assms ne t(3,4) Tick by (simp add: gate_inv_def)
      next
        case False
        then have le: "totalSeconds c \<le> 1" by simp
        from tick_last [OF Some \<open>registered c\<close> le]
        have t: "countdown (tick p) = Some (c\<lparr>totalSeconds := totalSeconds c - 1, registered := False\<rparr>)"
          "query_lockout_alert (tick p) = None" "warning (tick p) = warning p"
          "timeouts (tick p) = timeouts p"
          by simp_all
        have "state_of (tick p) = Expired"
          using t(1) by (simp add: state_of_def)
        then show ?thesis
          using assms t(2,3,4) Tick by (simp add: gate_inv_def)
      qed
    qed
  qed
next
  case Submit
  have s: "state_of (snd (submit p)) = state_of p"
    by (rule state_cong) (rule submit_frame)
  have q: "query_lockout_alert (snd (submit p)) = query_lockout_alert p"
    by (rule query_cong) (rule submit_frame)
  show ?thesis
  proof (cases "state_of p = Expired")
    case True
    with assms have "query_lockout_alert p = None" by (simp add: gate_inv_def)
    then have "submit p = (False, p)" by (rule submit_open)
    then show ?thesis using assms Submit by simp
  next
    case False
    with assms obtain a where a: "query_lockout_alert p = Some a" "''alert-success'' \<notin> classList a"
      unfolding gate_inv_def by blast
    have "(5000, RemoveWarning) \<in> set (timeouts (snd (submit p)))"
      using submit_blocked(3) [OF a] assms by (auto simp: gate_inv_def)
    then show ?thesis
      using assms s q False Submit by (simp add: gate_inv_def)
  qed
next
  case (Fire i)
  have s: "state_of (step p (Fire i)) = state_of p"
    by (rule state_cong) (rule fire_frame)
  have q: "query_lockout_alert (step p (Fire i)) = query_lockout_alert p"
    by (rule query_cong) (rule fire_frame)
  have "warning (step p (Fire i)) \<longrightarrow> (5000, RemoveWarning) \<in> set (timeouts (step p (Fire i)))"
  proof (cases "i < length (timeouts p)")
    case False
    then show ?thesis using assms by (simp add: gate_inv_def)
  next
    case True
    show ?thesis
    proof (cases "snd (timeouts p ! i)")
      case RemoveWarning
      then show ?thesis using True by simp
    next
      case ResetAnimation
      then have ne: "timeouts p ! i \<noteq> (5000, RemoveWarning)" by auto
      show ?thesis
      proof
        assume "warning (step p (Fire i))"
        then have "warning p" using True ResetAnimation by simp
        with assms have "(5000, RemoveWarning) \<in> set (timeouts p)" by (simp add: gate_inv_def)
        from remove_nth_keeps [OF this True ne]
        show "(5000, RemoveWarning) \<in> set (timeouts (step p (Fire i)))"
          using True ResetAnimation by simp
      qed
    qed
  qed
  then show ?thesis
    using assms s q Fire unfolding gate_inv_def by simp
qed

lemma run_gate_inv: "gate_inv p \<Longrightarrow> gate_inv (run p evs)"
  unfolding run_def by (induction evs arbitrary: p) (simp_all add: step_gate_inv)

lemma lockout_init_gate_inv:
  assumes "served_locked p"
  shows "gate_inv (lockout_init p)"
proof -
  from assms obtain a where a: "alert p = Some a" "''lockout-alert'' \<in> classList a"
    "''alert-success'' \<notin> classList a" and f: "countdown p = None" "\<not> warning p"
    by (auto simp: served_locked_def split: option.splits)
  then have q: "query_lockout_alert p = Some a"
    by (simp add: query_lockout_alert_def)
  from lockout_init_cases [of p] show ?thesis
  proof
    assume "lockout_init p = p"
    then show ?thesis using q a f by (simp add: gate_inv_def state_of_def)
  next
    assume "\<exists>t. 0 < t \<and> lockout_init p = startLockoutCountdown t (insert_countdown t p)"
    then obtain t where t: "lockout_init p = startLockoutCountdown t (insert_countdown t p)" by blast
    have "query_lockout_alert (lockout_init p) = query_lockout_alert p"
      unfolding t by (rule query_cong) (rule start_countdown)
    then show ?thesis
      using q a f unfolding t by (simp add: gate_inv_def state_of_def start_countdown)
  qed
qed

lemma pending_removals_append:
  "timeouts q = timeouts p @ ts \<Longrightarrow>
   pending_removals q = pending_removals p + length (filter (\<lambda>x. snd x = RemoveWarning) ts)"
  by (simp add: pending_removals_def)

text \<open>
  Claim C7, as amended. On a page served locked, at every point of the widget's lifetime:
  while the countdown has not expired (no countdown at all, or running), a submit is
  prevented and leaves a warning on display whose removal is pending with a delay of
  5000 ms and takes the warning away; the warning is inserted by this submit exactly when
  none is on display. Once the countdown has expired, a submit is not prevented and
  changes nothing.
\<close>

theorem submit_gating:
  assumes "served_locked p0"
  shows "(state_of (run (lockout_init p0) evs) \<noteq> Expired \<longrightarrow>
            fst (submit (run (lockout_init p0) evs)) \<and>
            warning (snd (submit (run (lockout_init p0) evs))) \<and>
            (5000, RemoveWarning) \<in> set (timeouts (snd (submit (run (lockout_init p0) evs)))) \<and>
            \<not> warning (run_timeout RemoveWarning (snd (submit (run (lockout_init p0) evs)))) \<and>
            pending_removals (snd (submit (run (lockout_init p0) evs))) =
              (if warning (run (lockout_init p0) evs)
               then pending_removals (run (lockout_init p0) evs)
               else Suc (pending_removals (run (lockout_init p0) evs)))) \<and>
         (state_of (run (lockout_init p0) evs) = Expired \<longrightarrow>
            submit (run (lockout_init p0) evs) = (False, run (lockout_init p0) evs))"
proof -
  define q where "q = run (lockout_init p0) evs"
  have inv: "gate_inv q"
    unfolding q_def using assms by (intro run_gate_inv lockout_init_gate_inv)
  have 1: "fst (submit q) \<and> warning (snd (submit q)) \<and>
      (5000, RemoveWarning) \<in> set (timeouts (snd (submit q))) \<and>
      \<not> warning (run_timeout RemoveWarning (snd (submit q))) \<and>
      pending_removals (snd (submit q)) =
        (if warning q then pending_removals q else Suc (pending_removals q))"
    if "state_of q \<noteq> Expired"
  proof -
    from inv that obtain a where a: "query_lockout_alert q = Some a" "''alert-success'' \<notin> classList a"
      unfolding gate_inv_def by blast
    note b = submit_blocked [OF a]
    have "(5000, RemoveWarning) \<in> set (timeouts (snd (submit q)))"
      using b(3) inv by (auto simp: gate_inv_def)
    moreover have "pending_removals (snd (submit q)) =
        (if warning q then pending_removals q else Suc (pending_removals q))"
      using pending_removals_append [OF b(3)] by simp
    ultimately show ?thesis using b(1,2) by simp
  qed
  have 2: "submit q = (False, q)" if "state_of q = Expired"
    using inv that by (simp add: gate_inv_def submit_open)
  show ?thesis
    using 1 2 unfolding q_def by blast
qed

lemma two_seconds_example: "parse_duration (js ''2 second(s)'') = Some (Num 2)"
proof -
  have "starts_seconds (js ''2'') (js ''2 second(s)'')"
    unfolding starts_seconds_def
    by (intro exI [of _ "js '' ''"] exI [of _ "[]"])
       (simp add: digit_run_def space_run_def js_def is_digit_def is_space_def)
  from parse_seconds [of "[]", OF _ this] show ?thesis
    by (simp add: digits_value_def js_def)
qed

lemma served_locked_page: "served_locked (locked_page message)"
  by (simp add: served_locked_def locked_page_def)

lemma two_seconds_started:
  "lockout_init (locked_page (js ''2 second(s)'')) =
     startLockoutCountdown (int 2) (insert_countdown (int 2) (locked_page (js ''2 second(s)'')))"
  using lockout_init_started [OF query_locked_page _ two_seconds_example] by simp

lemma two_seconds_expired:
  "state_of (run (lockout_init (locked_page (js ''2 second(s)''))) [Tick, Tick]) = Expired"
proof -
  have "run p [Tick, Tick] = (tick ^^ 2) p" for p
    by (simp add: run_def numeral_2_eq_2)
  then show ?thesis
    using countdown_course(2) [OF _ two_seconds_started] by simp
qed

lemma two_seconds_running:
  "state_of (run (lockout_init (locked_page (js ''2 second(s)''))) []) = Running"
  using countdown_course(1) [OF _ two_seconds_started, of 0] by (simp add: run_def)

theorem submit_gating_witness:
  "served_locked (locked_page (js ''2 second(s)'')) \<and>
   state_of (run (lockout_init (locked_page (js ''2 second(s)''))) []) \<noteq> Expired \<and>
   fst (submit (run (lockout_init (locked_page (js ''2 second(s)''))) [])) \<and>
   warning (snd (submit (run (lockout_init (locked_page (js ''2 second(s)''))) []))) \<and>
   state_of (run (lockout_init (locked_page (js ''2 second(s)''))) [Tick, Tick]) = Expired \<and>
   submit (run (lockout_init (locked_page (js ''2 second(s)''))) [Tick, Tick]) =
     (False, run (lockout_init (locked_page (js ''2 second(s)''))) [Tick, Tick])"
  using submit_gating [OF served_locked_page, of "js ''2 second(s)''" "[]"]
    submit_gating [OF served_locked_page, of "js ''2 second(s)''" "[Tick, Tick]"]
    served_locked_page [of "js ''2 second(s)''"] two_seconds_expired two_seconds_running
  by simp

lemma plain_message_idle:
  "lockout_init (locked_page (js ''Your account is locked.'')) = locked_page (js ''Your account is locked.'')"
proof -
  have "\<not> contains_duration (js ''Your account is locked.'')"
    by (rule no_digit_no_duration) (simp add: js_def is_digit_def)
  then have "match_duration (js ''Your account is locked.'') = None"
    by (simp add: match_duration_None_iff)
  from lockout_init_no_match [OF query_locked_page _ this] show ?thesis by simp
qed

text \<open>Claim C7 as stated fails on a second submit: it is rejected, but a warning is
  already on display, so none is inserted and no further removal is scheduled.\<close>

theorem second_submit_inserts_no_warning:
  "fst (submit (run (lockout_init (locked_page (js ''Your account is locked.''))) [Submit])) \<and>
   warning (run (lockout_init (locked_page (js ''Your account is locked.''))) [Submit]) \<and>
   timeouts (run (lockout_init (locked_page (js ''Your account is locked.''))) [Submit]) =
     [(5000, RemoveWarning), (500, ResetAnimation)] \<and>
   timeouts (snd (submit (run (lockout_init (locked_page (js ''Your account is locked.''))) [Submit]))) =
     [(5000, RemoveWarning), (500, ResetAnimation), (500, ResetAnimation)] \<and>
   pending_removals (snd (submit (run (lockout_init (locked_page (js ''Your account is locked.''))) [Submit]))) =
     pending_removals (run (lockout_init (locked_page (js ''Your account is locked.''))) [Submit])"
  unfolding plain_message_idle
  by (simp add: run_def submit_def query_lockout_alert_def locked_page_def Let_def pending_removals_def)

section \<open>The password toggle flips\<close>

lemma toggle_same: "toggleSpecificPasswordWithImages field toggle d = togglePasswordField field toggle d"
  by (simp add: toggleSpecificPasswordWithImages_def togglePasswordField_def)

lemma set_inputs [simp]:
  "inputs (set_type f t d) = (inputs d)(f := (inputs d f)\<lparr>input_type := t\<rparr>)"
  "inputs (set_icon ic s a d) = inputs d"
  "inputs (set_aria_label g v d) = inputs d"
  "inputs (set_title g v d) = inputs d"
  by (simp_all add: set_type_def set_icon_def set_aria_label_def set_title_def split: option.splits)

lemma set_controls [simp]:
  "controls (set_type f t d) = controls d"
  "controls (set_icon ic s a d) = controls d"
  "controls (set_aria_label g v d) = (controls d)(g := (controls d g)\<lparr>aria_label := Some v\<rparr>)"
  "controls (set_title g v d) = (controls d)(g := (controls d g)\<lparr>title_attr := Some v\<rparr>)"
  by (simp_all add: set_type_def set_icon_def set_aria_label_def set_title_def split: option.splits)

lemma set_images [simp]:
  "images (set_type f t d) = images d"
  "images (set_icon None s a d) = images d"
  "images (set_icon (Some k) s a d) = (images d)(k := (images d k)\<lparr>src := s, alt := a\<rparr>)"
  "images (set_aria_label g v d) = images d"
  "images (set_title g v d) = images d"
  by (simp_all add: set_type_def set_icon_def set_aria_label_def set_title_def)

lemma toggle_inputs:
  "inputs (togglePasswordField i j d) =
     (inputs d)(i := (inputs d i)\<lparr>input_type :=
        if input_type (inputs d i) = ''password'' then ''text'' else ''password''\<rparr>)"
  by (simp add: togglePasswordField_def Let_def)

lemma toggle_controls:
  "controls (togglePasswordField i j d) =
     (controls d)(j := (controls d j)
        \<lparr>aria_label := Some (if input_type (inputs d i) = ''password''
                              then ''Hide password'' else ''Show password''),
         title_attr := Some (if input_type (inputs d i) = ''password''
                              then ''Hide password'' else ''Show password'')\<rparr>)"
  by (simp add: togglePasswordField_def Let_def)

lemma toggle_images:
  "images (togglePasswordField i j d) =
     (case img (controls d j) of
        None \<Rightarrow> images d
      | Some k \<Rightarrow> (images d)(k := (images d k)
          \<lparr>src := if input_type (inputs d i) = ''password''
                   then ''/static/uploads/eye-slash.png'' else ''/static/uploads/eye.png'',
           alt := if input_type (inputs d i) = ''password''
                   then ''Hide password'' else ''Show password''\<rparr>))"
  by (simp add: togglePasswordField_def Let_def split: option.splits)

lemma toggle_thrice:
  "togglePasswordField i j (togglePasswordField i j (togglePasswordField i j d)) =
     togglePasswordField i j d"
proof (rule form_view.equality)
  show "inputs (togglePasswordField i j (togglePasswordField i j (togglePasswordField i j d))) =
      inputs (togglePasswordField i j d)"
    by (simp add: toggle_inputs)
  show "controls (togglePasswordField i j (togglePasswordField i j (togglePasswordField i j d))) =
      controls (togglePasswordField i j d)"
    by (simp add: toggle_controls toggle_inputs)
  show "images (togglePasswordField i j (togglePasswordField i j (togglePasswordField i j d))) =
      images (togglePasswordField i j d)"
    by (simp add: toggle_images toggle_controls toggle_inputs split: option.splits)
  show "form_view.more (togglePasswordField i j (togglePasswordField i j (togglePasswordField i j d))) =
      form_view.more (togglePasswordField i j d)"
    by simp
qed

text \<open>Claim C8 as stated fails: the toggle is not idempotent. On a masked input one call
  gives \<open>text\<close> and a second call gives \<open>password\<close> again, so toggling twice is not
  toggling once.\<close>

theorem toggle_not_idempotent:
  "input_type (inputs (togglePasswordField 0 0 masked_form) 0) = ''text'' \<and>
   input_type (inputs (togglePasswordField 0 0 (togglePasswordField 0 0 masked_form)) 0) = ''password'' \<and>
   togglePasswordField 0 0 (togglePasswordField 0 0 masked_form) \<noteq> togglePasswordField 0 0 masked_form"
proof -
  have 1: "input_type (inputs (togglePasswordField 0 0 masked_form) 0) = ''text''"
    by (simp add: toggle_inputs masked_form_def)
  have 2: "input_type (inputs (togglePasswordField 0 0 (togglePasswordField 0 0 masked_form)) 0) = ''password''"
    by (simp add: toggle_inputs masked_form_def)
  from 1 2 have "togglePasswordField 0 0 (togglePasswordField 0 0 masked_form) \<noteq>
      togglePasswordField 0 0 masked_form"
    by auto
  with 1 2 show ?thesis by simp
qed

text \<open>
  Claim C8, as amended. A call of the toggle on an input and a control flips the type of
  the input (\<open>password\<close> becomes \<open>text\<close>, anything else becomes \<open>password\<close>), sets the
  \<open>aria-label\<close> and the \<open>title\<close> of the control to \<open>Hide password\<close> when the input was
  masked and to \<open>Show password\<close> otherwise, and sets \<open>src\<close> and \<open>alt\<close> of the control's image,
  if it has one, to the crossed eye and \<open>Hide password\<close>, or to the open eye and
  \<open>Show password\<close>. It changes no other input, no other control and no other image. On a
  masked or plain input two calls give the type back, and three calls are one call. The
  function of final_v2 does the same.
\<close>

theorem toggle_flips_type:
  "input_type (inputs (togglePasswordField i j d) i) =
     (if input_type (inputs d i) = ''password'' then ''text'' else ''password'') \<and>
   aria_label (controls (togglePasswordField i j d) j) =
     Some (if input_type (inputs d i) = ''password'' then ''Hide password'' else ''Show password'') \<and>
   title_attr (controls (togglePasswordField i j d) j) =
     Some (if input_type (inputs d i) = ''password'' then ''Hide password'' else ''Show password'') \<and>
   img (controls (togglePasswordField i j d) j) = img (controls d j) \<and>
   (img (controls d j) = Some k \<longrightarrow>
      src (images (togglePasswordField i j d) k) =
        (if input_type (inputs d i) = ''password''
         then ''/static/uploads/eye-slash.png'' else ''/static/uploads/eye.png'') \<and>
      alt (images (togglePasswordField i j d) k) =
        (if input_type (inputs d i) = ''password'' then ''Hide password'' else ''Show password'')) \<and>
   (\<forall>i'. i' \<noteq> i \<longrightarrow> inputs (togglePasswordField i j d) i' = inputs d i') \<and>
   (\<forall>j'. j' \<noteq> j \<longrightarrow> controls (togglePasswordField i j d) j' = controls d j') \<and>
   (\<forall>k'. img (controls d j) \<noteq> Some k' \<longrightarrow> images (togglePasswordField i j d) k' = images d k') \<and>
   (input_type (inputs d i) = ''password'' \<or> input_type (inputs d i) = ''text'' \<longrightarrow>
      input_type (inputs (togglePasswordField i j (togglePasswordField i j d)) i) =
        input_type (inputs d i)) \<and>
   togglePasswordField i j (togglePasswordField i j (togglePasswordField i j d)) =
     togglePasswordField i j d \<and>
   toggleSpecificPasswordWithImages i j d = togglePasswordField i j d"
proof -
  have "\<forall>k'. img (controls d j) \<noteq> Some k' \<longrightarrow> images (togglePasswordField i j d) k' = images d k'"
    by (auto simp: toggle_images split: option.splits)
  moreover have "img (controls d j) = Some k \<longrightarrow>
      src (images (togglePasswordField i j d) k) =
        (if input_type (inputs d i) = ''password''
         then ''/static/uploads/eye-slash.png'' else ''/static/uploads/eye.png'') \<and>
      alt (images (togglePasswordField i j d) k) =
        (if input_type (inputs d i) = ''password'' then ''Hide password'' else ''Show password'')"
    by (simp add: toggle_images)
  moreover have "input_type (inputs d i) = ''password'' \<or> input_type (inputs d i) = ''text'' \<longrightarrow>
      input_type (inputs (togglePasswordField i j (togglePasswordField i j d)) i) =
        input_type (inputs d i)"
    by (auto simp: toggle_inputs)
  ultimately show ?thesis
    using toggle_thrice [of i j d] toggle_same [of i j d]
    by (simp add: toggle_inputs toggle_controls)
qed

theorem toggle_flips_type_witness:
  "input_type (inputs (togglePasswordField 0 0 masked_form) 0) = ''text'' \<and>
   aria_label (controls (togglePasswordField 0 0 masked_form) 0) = Some ''Hide password'' \<and>
   title_attr (controls (togglePasswordField 0 0 masked_form) 0) = Some ''Hide password'' \<and>
   src (images (togglePasswordField 0 0 masked_form) 0) = ''/static/uploads/eye-slash.png'' \<and>
   alt (images (togglePasswordField 0 0 masked_form) 0) = ''Hide password'' \<and>
   inputs (togglePasswordField 0 0 masked_form) 1 = inputs masked_form 1 \<and>
   controls (togglePasswordField 0 0 masked_form) 1 = controls masked_form 1 \<and>
   images (togglePasswordField 0 0 masked_form) 1 = images masked_form 1 \<and>
   input_type (inputs (togglePasswordField 0 0 (togglePasswordField 0 0 masked_form)) 0) = ''password''"
proof -
  have m: "input_type (inputs masked_form 0) = ''password''" "img (controls masked_form 0) = Some 0"
    by (simp_all add: masked_form_def)
  have n: "(1::nat) \<noteq> 0" "img (controls masked_form 0) \<noteq> Some 1"
    by (simp_all add: masked_form_def)
  from toggle_flips_type [of 0 0 masked_form 0] m n show ?thesis
    by simp
qed

section \<open>The verdicts of the field validator\<close>

lemma validateField_valid_iff:
  "fst (validateField passwordField field) \<longleftrightarrow>
     \<not> (required field \<and> trim (field_value field) = []) \<and>
     \<not> (field_type field = ''email'' \<and> trim (field_value field) \<noteq> [] \<and>
        \<not> emailRegex_test (trim (field_value field))) \<and>
     \<not> (field_id field = ''register_password'' \<and> trim (field_value field) \<noteq> [] \<and>
        length (trim (field_value field)) < 8) \<and>
     \<not> (field_id field = ''confirm_password'' \<and> trim (field_value field) \<noteq> [] \<and>
        (\<exists>pw. passwordField = Some pw \<and> trim (field_value field) \<noteq> pw))"
  by (auto simp: validateField_def Let_def showFieldError_def split: option.splits)

lemma validateField_keeps:
  "field_value (snd (validateField passwordField field)) = field_value field"
  "field_type (snd (validateField passwordField field)) = field_type field"
  "field_id (snd (validateField passwordField field)) = field_id field"
  "required (snd (validateField passwordField field)) = required field"
  by (auto simp: validateField_def Let_def showFieldError_def split: option.splits)

lemma validateField_classes:
  "field_classes (snd (validateField passwordField field)) =
     (if fst (validateField passwordField field)
      then field_classes field - {''error''} else insert ''error'' (field_classes field))"
  by (auto simp: validateField_def Let_def showFieldError_def split: option.splits)

text \<open>The message elements after the call: the first one that was there is gone, and
  each check that fails has appended its message, in the order of the checks.\<close>

lemma validateField_errors:
  "field_errors (snd (validateField passwordField field)) =
     tl (field_errors field) @
     (if required field \<and> trim (field_value field) = []
      then [''This field is required''] else []) @
     (if field_type field = ''email'' \<and> trim (field_value field) \<noteq> [] \<and>
         \<not> emailRegex_test (trim (field_value field))
      then [''Please enter a valid email address''] else []) @
     (if field_id field = ''register_password'' \<and> trim (field_value field) \<noteq> [] \<and>
         length (trim (field_value field)) < 8
      then [''Password must be at least 8 characters long''] else []) @
     (if field_id field = ''confirm_password'' \<and> trim (field_value field) \<noteq> [] \<and>
         (\<exists>pw. passwordField = Some pw \<and> trim (field_value field) \<noteq> pw)
      then [''Passwords do not match''] else [])"
  by (auto simp: validateField_def Let_def showFieldError_def split: option.splits list.splits)

lemma emailRegex_test_iff: "emailRegex_test v \<longleftrightarrow> email_shape v"
proof
  assume "emailRegex_test v"
  then obtain u where "u \<in> set (emailRegex v)"
    unfolding emailRegex_test_def by (cases "emailRegex v") auto
  then obtain a b c where "a \<noteq> []" "b \<noteq> []" "c \<noteq> []"
    "\<forall>x\<in>set a. not_space_or_at x" "\<forall>x\<in>set b. not_space_or_at x" "\<forall>x\<in>set c. not_space_or_at x"
    "v = a @ js ''@'' @ b @ js ''.'' @ c"
    unfolding emailRegex_def
    by (auto simp: in_bind one_or_more_iff lit_iff split: if_splits)
  then have "a \<noteq> [] \<and> b \<noteq> [] \<and> c \<noteq> [] \<and>
      (\<forall>x\<in>set (a @ b @ c). \<not> is_space x \<and> x \<noteq> 64) \<and> v = a @ js ''@'' @ b @ js ''.'' @ c"
    unfolding not_space_or_at_def by auto
  then show "email_shape v"
    unfolding email_shape_def by blast
next
  assume "email_shape v"
  then obtain a b c where f: "a \<noteq> []" "b \<noteq> []" "c \<noteq> []"
    "\<forall>x\<in>set a. not_space_or_at x" "\<forall>x\<in>set b. not_space_or_at x" "\<forall>x\<in>set c. not_space_or_at x"
    and v: "v = a @ js ''@'' @ b @ js ''.'' @ c @ []"
    unfolding email_shape_def not_space_or_at_def by auto
  have "() \<in> set (emailRegex v)"
    unfolding emailRegex_def v using f
    by (intro run_bind_I lit_bind_I) simp_all
  then show "emailRegex_test v"
    unfolding emailRegex_test_def by auto
qed

lemma email_needs_dot: "emailRegex_test v \<Longrightarrow> 46 \<in> set v"
  unfolding emailRegex_test_iff email_shape_def by (auto simp: js_def)


text \<open>
  Claim C9, as amended. \<open>validateField\<close> returns \<open>false\<close>: for a required field whose
  trimmed value is empty; for a field of type \<open>email\<close> whose non-empty trimmed value does not
  match the email pattern; for the field with the id \<open>register_password\<close> whose non-empty
  trimmed value has fewer than 8 code units; and for the field with the id
  \<open>confirm_password\<close> whose value is non-empty when trimmed and differs, as typed and
  trimmed, from the value of the element \<open>register_password\<close>. It is not pure. Of the
  message elements of the field's parent the first is removed, and each of the first
  three checks appends its message exactly when it fails, the fourth at least in the case
  above and only on \<open>confirm_password\<close>; no message is appended exactly when the verdict is
  \<open>true\<close>. The class \<open>error\<close> is removed from the field and set again exactly when the
  verdict is \<open>false\<close>. Value, type, id and requiredness of the field are not changed.
\<close>

theorem validateField_verdicts:
  "let v = trim (field_value field);
       valid = fst (validateField passwordField field);
       after = snd (validateField passwordField field)
   in (required field \<and> v = [] \<longrightarrow> \<not> valid) \<and>
      (field_type field = ''email'' \<and> v \<noteq> [] \<and> \<not> emailRegex_test v \<longrightarrow> \<not> valid) \<and>
      (field_id field = ''register_password'' \<and> v \<noteq> [] \<and> length v < 8 \<longrightarrow> \<not> valid) \<and>
      (field_id field = ''confirm_password'' \<and> v \<noteq> [] \<and> passwordField = Some pw \<and>
         v \<noteq> pw \<and> field_value field \<noteq> pw \<longrightarrow> \<not> valid) \<and>
      (\<exists>msgs. field_errors after = tl (field_errors field) @ msgs \<and> distinct msgs \<and>
         (valid \<longleftrightarrow> msgs = []) \<and>
         (''This field is required'' \<in> set msgs \<longleftrightarrow> required field \<and> v = []) \<and>
         (''Please enter a valid email address'' \<in> set msgs \<longleftrightarrow>
            field_type field = ''email'' \<and> v \<noteq> [] \<and> \<not> emailRegex_test v) \<and>
         (''Password must be at least 8 characters long'' \<in> set msgs \<longleftrightarrow>
            field_id field = ''register_password'' \<and> v \<noteq> [] \<and> length v < 8) \<and>
         (field_id field = ''confirm_password'' \<and> v \<noteq> [] \<and> passwordField = Some pw \<and>
            v \<noteq> pw \<and> field_value field \<noteq> pw \<longrightarrow> ''Passwords do not match'' \<in> set msgs) \<and>
         (''Passwords do not match'' \<in> set msgs \<longrightarrow> field_id field = ''confirm_password'') \<and>
         set msgs \<subseteq> {''This field is required'', ''Please enter a valid email address'',
                     ''Password must be at least 8 characters long'', ''Passwords do not match''}) \<and>
      field_classes after =
        (if valid then field_classes field - {''error''} else insert ''error'' (field_classes field)) \<and>
      field_value after = field_value field \<and> field_type after = field_type field \<and>
      field_id after = field_id field \<and> required after = required field"
proof -
  define v where "v = trim (field_value field)"
  define c1 where "c1 \<longleftrightarrow> required field \<and> v = []"
  define c2 where "c2 \<longleftrightarrow> field_type field = ''email'' \<and> v \<noteq> [] \<and> \<not> emailRegex_test v"
  define c3 where "c3 \<longleftrightarrow> field_id field = ''register_password'' \<and> v \<noteq> [] \<and> length v < 8"
  define c4 where "c4 \<longleftrightarrow> field_id field = ''confirm_password'' \<and> v \<noteq> [] \<and>
      (\<exists>p. passwordField = Some p \<and> v \<noteq> p)"
  define msgs where "msgs =
     (if c1 then [''This field is required''] else []) @
     (if c2 then [''Please enter a valid email address''] else []) @
     (if c3 then [''Password must be at least 8 characters long''] else []) @
     (if c4 then [''Passwords do not match''] else [])"
  have valid: "fst (validateField passwordField field) \<longleftrightarrow> \<not> c1 \<and> \<not> c2 \<and> \<not> c3 \<and> \<not> c4"
    unfolding c1_def c2_def c3_def c4_def v_def by (rule validateField_valid_iff)
  have errors: "field_errors (snd (validateField passwordField field)) = tl (field_errors field) @ msgs"
    unfolding msgs_def c1_def c2_def c3_def c4_def v_def by (rule validateField_errors)
  have r4: "c4" if "field_id field = ''confirm_password'' \<and> v \<noteq> [] \<and> passwordField = Some pw \<and>
         v \<noteq> pw \<and> field_value field \<noteq> pw"
    using that by (simp add: c4_def)
  have m: "distinct msgs" "msgs = [] \<longleftrightarrow> \<not> c1 \<and> \<not> c2 \<and> \<not> c3 \<and> \<not> c4"
    "''This field is required'' \<in> set msgs \<longleftrightarrow> c1"
    "''Please enter a valid email address'' \<in> set msgs \<longleftrightarrow> c2"
    "''Password must be at least 8 characters long'' \<in> set msgs \<longleftrightarrow> c3"
    "''Passwords do not match'' \<in> set msgs \<longleftrightarrow> c4"
    "set msgs \<subseteq> {''This field is required'', ''Please enter a valid email address'',
                     ''Password must be at least 8 characters long'', ''Passwords do not match''}"
    unfolding msgs_def by auto
  define P where "P ms \<longleftrightarrow>
      field_errors (snd (validateField passwordField field)) = tl (field_errors field) @ ms \<and>
      distinct ms \<and>
      (fst (validateField passwordField field) \<longleftrightarrow> ms = []) \<and>
      (''This field is required'' \<in> set ms \<longleftrightarrow> required field \<and> v = []) \<and>
      (''Please enter a valid email address'' \<in> set ms \<longleftrightarrow>
         field_type field = ''email'' \<and> v \<noteq> [] \<and> \<not> emailRegex_test v) \<and>
      (''Password must be at least 8 characters long'' \<in> set ms \<longleftrightarrow>
         field_id field = ''register_password'' \<and> v \<noteq> [] \<and> length v < 8) \<and>
      (field_id field = ''confirm_password'' \<and> v \<noteq> [] \<and> passwordField = Some pw \<and>
         v \<noteq> pw \<and> field_value field \<noteq> pw \<longrightarrow> ''Passwords do not match'' \<in> set ms) \<and>
      (''Passwords do not match'' \<in> set ms \<longrightarrow> field_id field = ''confirm_password'') \<and>
      set ms \<subseteq> {''This field is required'', ''Please enter a valid email address'',
                ''Password must be at least 8 characters long'', ''Passwords do not match''}"
    for ms
  have "P msgs"
    unfolding P_def
    using errors m valid r4 unfolding c1_def [symmetric] c2_def [symmetric] c3_def [symmetric]
    by (simp add: c4_def)
  then have ex: "\<exists>ms. P ms" by (rule exI)
  have verdicts: "(required field \<and> v = [] \<longrightarrow> \<not> fst (validateField passwordField field)) \<and>
      (field_type field = ''email'' \<and> v \<noteq> [] \<and> \<not> emailRegex_test v \<longrightarrow>
         \<not> fst (validateField passwordField field)) \<and>
      (field_id field = ''register_password'' \<and> v \<noteq> [] \<and> length v < 8 \<longrightarrow>
         \<not> fst (validateField passwordField field)) \<and>
      (field_id field = ''confirm_password'' \<and> v \<noteq> [] \<and> passwordField = Some pw \<and>
         v \<noteq> pw \<and> field_value field \<noteq> pw \<longrightarrow> \<not> fst (validateField passwordField field))"
    using valid r4 by (auto simp: c1_def c2_def c3_def)
  show ?thesis
    unfolding Let_def v_def [symmetric]
    using verdicts ex [unfolded P_def] validateField_classes [of passwordField field]
      validateField_keeps [of passwordField field]
    by simp
qed

text \<open>Claim C9 as stated fails in two ways. The call changes the document: a required
  empty field comes back with the class \<open>error\<close> and a message element. And the checks of
  passwords go by the id: the length is checked on the field \<open>register_password\<close> only, so
  three characters in the password field \<open>admin_password\<close> are valid, and only the field
  \<open>confirm_password\<close> is compared, so the confirmation field \<open>admin_confirm_password\<close> is
  valid without a look at any other element (here beside a password element of another
  value).\<close>

theorem validateField_writes_and_checks_by_id:
  "snd (validateField None \<lparr>field_value = [], field_type = ''text'', field_id = ''username'',
          required = True, field_classes = {}, field_errors = []\<rparr>) =
     \<lparr>field_value = [], field_type = ''text'', field_id = ''username'', required = True,
      field_classes = {''error''}, field_errors = [''This field is required'']\<rparr> \<and>
   snd (validateField None \<lparr>field_value = [], field_type = ''text'', field_id = ''username'',
          required = True, field_classes = {}, field_errors = []\<rparr>) \<noteq>
     \<lparr>field_value = [], field_type = ''text'', field_id = ''username'', required = True,
      field_classes = {}, field_errors = []\<rparr> \<and>
   length (trim (js ''abc'')) < 8 \<and>
   fst (validateField None \<lparr>field_value = js ''abc'', field_type = ''password'',
          field_id = ''admin_password'', required = True, field_classes = {}, field_errors = []\<rparr>) \<and>
   fst (validateField (Some (js ''abcdefgh'')) \<lparr>field_value = js ''abcdefgX'', field_type = ''password'',
          field_id = ''admin_confirm_password'', required = True, field_classes = {},
          field_errors = []\<rparr>)"
proof -
  have t: "trim (js ''abc'') = js ''abc''" "trim (js ''abcdefgX'') = js ''abcdefgX''"
    by (simp_all add: trim_def js_def is_space_def)
  have "fst (validateField (Some (js ''abcdefgh'')) \<lparr>field_value = js ''abcdefgX'', field_type = ''password'',
          field_id = ''admin_confirm_password'', required = True, field_classes = {},
          field_errors = []\<rparr>)"
    by (simp add: validateField_valid_iff t) (simp add: js_def)
  moreover
  have "fst (validateField None \<lparr>field_value = js ''abc'', field_type = ''password'',
          field_id = ''admin_password'', required = True, field_classes = {}, field_errors = []\<rparr>)"
    by (simp add: validateField_valid_iff t) (simp add: js_def)
  moreover have "length (trim (js ''abc'')) < 8"
    by (simp add: t) (simp add: js_def)
  ultimately show ?thesis
    by (simp add: validateField_def Let_def showFieldError_def trim_def)
qed

theorem validateField_verdicts_witness:
  "\<not> fst (validateField None \<lparr>field_value = js '' '', field_type = ''text'', field_id = ''username'',
            required = True, field_classes = {}, field_errors = [''stale'']\<rparr>) \<and>
   ''This field is required'' \<in> set (field_errors (snd (validateField None
          \<lparr>field_value = js '' '', field_type = ''text'', field_id = ''username'',
            required = True, field_classes = {}, field_errors = [''stale'']\<rparr>))) \<and>
   ''stale'' \<notin> set (field_errors (snd (validateField None
          \<lparr>field_value = js '' '', field_type = ''text'', field_id = ''username'',
            required = True, field_classes = {}, field_errors = [''stale'']\<rparr>))) \<and>
   ''error'' \<in> field_classes (snd (validateField None
          \<lparr>field_value = js '' '', field_type = ''text'', field_id = ''username'',
            required = True, field_classes = {}, field_errors = [''stale'']\<rparr>)) \<and>
   \<not> fst (validateField None \<lparr>field_value = js ''a@b'', field_type = ''email'', field_id = ''email'',
            required = True, field_classes = {}, field_errors = []\<rparr>) \<and>
   \<not> fst (validateField None \<lparr>field_value = js ''abc'', field_type = ''password'',
            field_id = ''register_password'', required = True, field_classes = {}, field_errors = []\<rparr>) \<and>
   \<not> fst (validateField (Some (js ''abcdefgh'')) \<lparr>field_value = js ''abcdefgX'', field_type = ''password'',
            field_id = ''confirm_password'', required = True, field_classes = {}, field_errors = []\<rparr>)"
proof -
  have t: "trim (js '' '') = []" "trim (js ''a@b'') = js ''a@b''" "trim (js ''abc'') = js ''abc''"
    "trim (js ''abcdefgX'') = js ''abcdefgX''"
    by (simp_all add: trim_def js_def is_space_def)
  have e: "\<not> emailRegex_test (js ''a@b'')"
    using email_needs_dot [of "js ''a@b''"] by (auto simp: js_def)
  have n: "js ''a@b'' \<noteq> []" "js ''abc'' \<noteq> []" "length (js ''abc'') < 8" "js ''abcdefgX'' \<noteq> []"
    "js ''abcdefgX'' \<noteq> js ''abcdefgh''"
    by (simp_all add: js_def)
  let ?f1 = "\<lparr>field_value = js '' '', field_type = ''text'', field_id = ''username'',
            required = True, field_classes = {}, field_errors = [''stale'']\<rparr>"
  note w1 = validateField_verdicts [of ?f1 None "[]", unfolded Let_def]
  have 1: "\<not> fst (validateField None ?f1)"
    using w1 [THEN conjunct1] t by simp
  from w1 [THEN conjunct2, THEN conjunct2, THEN conjunct2, THEN conjunct2, THEN conjunct1]
  obtain msgs where m: "field_errors (snd (validateField None ?f1)) = tl (field_errors ?f1) @ msgs"
    and r: "''This field is required'' \<in> set msgs \<longleftrightarrow> required ?f1 \<and> trim (field_value ?f1) = []"
    and sub: "set msgs \<subseteq> {''This field is required'', ''Please enter a valid email address'',
                  ''Password must be at least 8 characters long'', ''Passwords do not match''}"
    by (elim exE conjE) (rule that)
  have s: "''stale'' \<notin> set msgs"
    using sub by auto
  have 2: "''This field is required'' \<in> set (field_errors (snd (validateField None ?f1)))"
    "''stale'' \<notin> set (field_errors (snd (validateField None ?f1)))"
    using m r s t by simp_all
  have 3: "''error'' \<in> field_classes (snd (validateField None ?f1))"
    using w1 [THEN conjunct2, THEN conjunct2, THEN conjunct2, THEN conjunct2, THEN conjunct2,
        THEN conjunct1] 1 by simp
  have 4: "\<not> fst (validateField None \<lparr>field_value = js ''a@b'', field_type = ''email'', field_id = ''email'',
            required = True, field_classes = {}, field_errors = []\<rparr>)"
    using validateField_verdicts [of "\<lparr>field_value = js ''a@b'', field_type = ''email'', field_id = ''email'',
            required = True, field_classes = {}, field_errors = []\<rparr>" None "[]", unfolded Let_def,
            THEN conjunct2, THEN conjunct1] t e n by simp
  have 5: "\<not> fst (validateField None \<lparr>field_value = js ''abc'', field_type = ''password'',
            field_id = ''register_password'', required = True, field_classes = {}, field_errors = []\<rparr>)"
    using validateField_verdicts [of "\<lparr>field_value = js ''abc'', field_type = ''password'',
            field_id = ''register_password'', required = True, field_classes = {}, field_errors = []\<rparr>" None "[]",
            unfolded Let_def, THEN conjunct2, THEN conjunct2, THEN conjunct1] t n
    by simp
  have 6: "\<not> fst (validateField (Some (js ''abcdefgh'')) \<lparr>field_value = js ''abcdefgX'', field_type = ''password'',
            field_id = ''confirm_password'', required = True, field_classes = {}, field_errors = []\<rparr>)"
    using validateField_verdicts [of "\<lparr>field_value = js ''abcdefgX'', field_type = ''password'',
            field_id = ''confirm_password'', required = True, field_classes = {}, field_errors = []\<rparr>"
            "Some (js ''abcdefgh'')" "js ''abcdefgh''", unfolded Let_def,
            THEN conjunct2, THEN conjunct2, THEN conjunct2, THEN conjunct1] t n
    by simp
  from 1 2 3 4 5 6 show ?thesis by simp
qed

section \<open>The file size guard\<close>

text \<open>
  Claim C10. On a change event, when the first selected file is larger than
  \<open>5 * 1024 * 1024\<close> bytes an alert is shown and the value of the input is reset to the
  empty string, which discards the selection; when it is at most that size, or when no
  file is selected, nothing changes.
\<close>

theorem file_size_guard:
  "(files target = file # others \<and> file > 5 * 1024 * 1024 \<longrightarrow>
      file_change target =
        ([''File size must be less than 5MB''], target\<lparr>files := [], input_value := []\<rparr>) \<and>
      input_value (snd (file_change target)) = []) \<and>
   (files target = file # others \<and> file \<le> 5 * 1024 * 1024 \<longrightarrow> file_change target = ([], target)) \<and>
   (files target = [] \<longrightarrow> file_change target = ([], target))"
  by (simp add: file_change_def)

theorem file_size_guard_witness:
  "input_value (snd (file_change \<lparr>files = [5242881], input_value = js ''C:/fakepath/scan.pdf''\<rparr>)) = [] \<and>
   file_change \<lparr>files = [5242880], input_value = js ''C:/fakepath/scan.pdf''\<rparr> =
     ([], \<lparr>files = [5242880], input_value = js ''C:/fakepath/scan.pdf''\<rparr>) \<and>
   file_change \<lparr>files = [], input_value = []\<rparr> = ([], \<lparr>files = [], input_value = []\<rparr>)"
  using file_size_guard [of "\<lparr>files = [5242881], input_value = js ''C:/fakepath/scan.pdf''\<rparr>" 5242881 "[]"]
    file_size_guard [of "\<lparr>files = [5242880], input_value = js ''C:/fakepath/scan.pdf''\<rparr>" 5242880 "[]"]
    file_size_guard [of "\<lparr>files = [], input_value = []\<rparr>"]
  by simp

section \<open>The countdown text and the progress bar\<close>

subsection \<open>Decimal numerals\<close>

lemma digits_value_snoc: "digits_value (ds @ [c]) = digits_value ds * 10 + (int c - 48)"
  by (simp add: digits_value_def)

lemma digits_value_Cons_zero: "digits_value (48 # ds) = digits_value ds"
proof (induction ds rule: rev_induct)
  case Nil
  then show ?case by (simp add: digits_value_def)
next
  case (snoc c ds)
  have "digits_value (48 # ds @ [c]) = digits_value ((48 # ds) @ [c])" by simp
  also have "\<dots> = digits_value (48 # ds) * 10 + (int c - 48)" by (rule digits_value_snoc)
  finally show ?case using snoc by (simp add: digits_value_snoc)
qed

lemma decimal_digit_run: "digit_run (decimal n)"
proof (induction n rule: decimal.induct)
  case (1 n)
  show ?case
  proof (cases "n < 10")
    case True
    then show ?thesis by (subst decimal.simps) (simp add: digit_run_def is_digit_def)
  next
    case False
    have "n mod 10 < 10" by simp
    then have "is_digit (48 + n mod 10)" by (simp add: is_digit_def)
    with 1 False show ?thesis
      by (subst decimal.simps) (simp add: digit_run_def)
  qed
qed

lemma digits_value_decimal: "digits_value (decimal n) = int n"
proof (induction n rule: decimal.induct)
  case (1 n)
  show ?case
  proof (cases "n < 10")
    case True
    then show ?thesis by (subst decimal.simps) (simp add: digits_value_def)
  next
    case False
    with 1 have "digits_value (decimal (n div 10)) = int (n div 10)" by simp
    with False show ?thesis
      by (subst decimal.simps) (simp add: digits_value_snoc zdiv_int zmod_int)
  qed
qed

lemma length_decimal_small: "n < 10 \<Longrightarrow> length (decimal n) = 1"
  by (subst decimal.simps) simp

lemma length_decimal_two: "10 \<le> n \<Longrightarrow> n < 100 \<Longrightarrow> length (decimal n) = 2"
  by (subst decimal.simps) (simp add: length_decimal_small)

lemma pad_two_digits:
  assumes "k < 60"
  shows "length (padStart 2 48 (decimal k)) = 2" "digit_run (padStart 2 48 (decimal k))"
    "digits_value (padStart 2 48 (decimal k)) = int k"
proof -
  have z: "is_digit 48" by (simp add: is_digit_def)
  show "length (padStart 2 48 (decimal k)) = 2"
  proof (cases "k < 10")
    case True
    then show ?thesis by (simp add: padStart_def length_decimal_small)
  next
    case False
    with assms show ?thesis by (simp add: padStart_def length_decimal_two)
  qed
  show "digit_run (padStart 2 48 (decimal k))"
    using decimal_digit_run [of k] z by (auto simp: padStart_def digit_run_def)
  show "digits_value (padStart 2 48 (decimal k)) = int k"
  proof (cases "k < 10")
    case True
    then have "padStart 2 48 (decimal k) = 48 # decimal k"
      by (simp add: padStart_def length_decimal_small numeral_2_eq_2)
    then show ?thesis by (simp add: digits_value_Cons_zero digits_value_decimal)
  next
    case False
    with assms have "padStart 2 48 (decimal k) = decimal k"
      by (simp add: padStart_def length_decimal_two)
    then show ?thesis by (simp add: digits_value_decimal)
  qed
qed

lemma formatTime_nonneg:
  assumes "0 \<le> n"
  shows "formatTime n =
     (if 0 < n div 60
      then decimal (nat (n div 60)) @ js '':'' @ padStart 2 48 (decimal (nat (n mod 60)))
      else decimal (nat n) @ js ''s'')"
proof -
  have r: "js_rem n 60 = n mod 60" "0 \<le> n div 60" "0 \<le> n mod 60"
    using assms by (simp_all add: js_rem_def)
  have s: "n div 60 = 0 \<Longrightarrow> n mod 60 = n"
    using mult_div_mod_eq [of 60 n] by simp
  show ?thesis
    unfolding formatTime_def Let_def r(1) toString_def using r(2,3) s by auto
qed

lemma decimal_digit: "n < 10 \<Longrightarrow> decimal n = [48 + n]"
  by (subst decimal.simps) simp

lemma formatTime_65: "formatTime 65 = js ''1:05''"
  by (simp add: formatTime_def js_rem_def toString_def padStart_def js_def decimal_digit)

lemma formatTime_9: "formatTime 9 = js ''9s''"
  by (simp add: formatTime_def js_rem_def toString_def padStart_def js_def decimal_digit)

lemma last_tick_full_bar:
  assumes "countdown p = Some c" "registered c" "progressBar c" "totalSeconds c = 1"
    "originalSeconds c \<noteq> 0"
  shows "bar (tick p) = Some (Width (Percent 100))" "remainingSeconds (tick p) = Some 0"
  using tick_last(1,7) [OF assms(1,2)] assms(3,4,5)
  by (simp_all add: progressPercentage_def remainingSeconds_def)

text \<open>
  Claim C6. For a non-negative number of seconds \<open>n\<close>: when the minutes \<open>n div 60\<close> are
  positive the text is the decimal numeral of the minutes, a colon, and exactly two digits
  whose value is \<open>n mod 60\<close>; otherwise it is the decimal numeral of \<open>n\<close> followed by \<open>s\<close>.
  \<open>formatTime(65)\<close> is \<open>1:05\<close> and \<open>formatTime(9)\<close> is \<open>9s\<close>. The tick that brings the counter
  to zero writes 100 percent to the progress bar.
\<close>

theorem display_format:
  assumes "0 \<le> n" "isSafeInteger n"
  shows "(0 < n div 60 \<longrightarrow>
            (\<exists>mm ss. formatTime n = mm @ js '':'' @ ss \<and> digit_run mm \<and> digits_value mm = n div 60 \<and>
                     length ss = 2 \<and> digit_run ss \<and> digits_value ss = n mod 60)) \<and>
         (\<not> 0 < n div 60 \<longrightarrow>
            (\<exists>ss. formatTime n = ss @ js ''s'' \<and> digit_run ss \<and> digits_value ss = n)) \<and>
         formatTime 65 = js ''1:05'' \<and> formatTime 9 = js ''9s'' \<and>
         (countdown p = Some c \<and> registered c \<and> progressBar c \<and> totalSeconds c = 1 \<and>
            originalSeconds c \<noteq> 0 \<longrightarrow>
            remainingSeconds (tick p) = Some 0 \<and> bar (tick p) = Some (Width (Percent 100)))"
proof (intro conjI impI)
  assume m: "0 < n div 60"
  have k: "nat (n mod 60) < 60" by simp
  have v: "int (nat (n div 60)) = n div 60" "int (nat (n mod 60)) = n mod 60"
    using m by simp_all
  let ?mm = "decimal (nat (n div 60))" and ?ss = "padStart 2 48 (decimal (nat (n mod 60)))"
  have "formatTime n = ?mm @ js '':'' @ ?ss \<and> digit_run ?mm \<and> digits_value ?mm = n div 60 \<and>
      length ?ss = 2 \<and> digit_run ?ss \<and> digits_value ?ss = n mod 60"
    using formatTime_nonneg [OF assms(1)] m pad_two_digits [OF k]
      decimal_digit_run [of "nat (n div 60)"] digits_value_decimal [of "nat (n div 60)"] v
    by simp
  then show "\<exists>mm ss. formatTime n = mm @ js '':'' @ ss \<and> digit_run mm \<and> digits_value mm = n div 60 \<and>
                length ss = 2 \<and> digit_run ss \<and> digits_value ss = n mod 60"
    by blast
next
  assume m: "\<not> 0 < n div 60"
  have "formatTime n = decimal (nat n) @ js ''s'' \<and> digit_run (decimal (nat n)) \<and>
      digits_value (decimal (nat n)) = n"
    using formatTime_nonneg [OF assms(1)] m decimal_digit_run [of "nat n"]
      digits_value_decimal [of "nat n"] assms(1)
    by simp
  then show "\<exists>ss. formatTime n = ss @ js ''s'' \<and> digit_run ss \<and> digits_value ss = n"
    by blast
next
  show "formatTime 65 = js ''1:05''" by (rule formatTime_65)
  show "formatTime 9 = js ''9s''" by (rule formatTime_9)
next
  assume a: "countdown p = Some c \<and> registered c \<and> progressBar c \<and> totalSeconds c = 1 \<and>
            originalSeconds c \<noteq> 0"
  then show "remainingSeconds (tick p) = Some 0" using last_tick_full_bar(2) [of p c] by simp
  from a show "bar (tick p) = Some (Width (Percent 100))" using last_tick_full_bar(1) [of p c] by simp
qed

theorem display_format_witness:
  "(0::int) \<le> 65 \<and> isSafeInteger 65 \<and> 0 < (65::int) div 60 \<and>
   (\<exists>mm ss. formatTime 65 = mm @ js '':'' @ ss \<and> digit_run mm \<and> digits_value mm = 1 \<and>
            length ss = 2 \<and> digit_run ss \<and> digits_value ss = 5) \<and>
   \<not> 0 < (9::int) div 60 \<and>
   (\<exists>ss. formatTime 9 = ss @ js ''s'' \<and> digit_run ss \<and> digits_value ss = 9) \<and>
   bar (tick (startLockoutCountdown 1 (insert_countdown 1 (locked_page [])))) = Some (Width (Percent 100))"
proof -
  have h: "(0::int) \<le> 65" "isSafeInteger 65" "(0::int) \<le> 9" "isSafeInteger 9"
    by (simp_all add: isSafeInteger_def MAX_SAFE_INTEGER_def)
  have c: "countdown (startLockoutCountdown 1 (insert_countdown 1 (locked_page []))) =
      Some \<lparr>totalSeconds = 1, originalSeconds = 1, timerElement = True, progressBar = True,
            registered = True\<rparr>"
    by (rule start_countdown)
  have "bar (tick (startLockoutCountdown 1 (insert_countdown 1 (locked_page [])))) = Some (Width (Percent 100))"
    using display_format [OF h(1,2), of "startLockoutCountdown 1 (insert_countdown 1 (locked_page []))"
        "\<lparr>totalSeconds = 1, originalSeconds = 1, timerElement = True, progressBar = True,
            registered = True\<rparr>"] c
    by simp
  moreover have "\<exists>mm ss. formatTime 65 = mm @ js '':'' @ ss \<and> digit_run mm \<and> digits_value mm = 1 \<and>
            length ss = 2 \<and> digit_run ss \<and> digits_value ss = 5"
    using conjunct1 [OF display_format [OF h(1,2)]] by simp
  moreover have "\<exists>ss. formatTime 9 = ss @ js ''s'' \<and> digit_run ss \<and> digits_value ss = 9"
    using conjunct1 [OF conjunct2 [OF display_format [OF h(3,4)]]] by simp
  ultimately show ?thesis using h by simp
qed

end
